theory Spec2Isabelle
  imports Complex_Main "HOL-Library.Sublist"
begin

section \<open>Paths\<close>

text \<open>
  Both scripts work on absolute, normalised POSIX paths: \<open>srcDir\<close> and \<open>destDir\<close> come out
  of \<open>path.resolve\<close>, every other path is built from them with \<open>path.join\<close> and names
  returned by \<open>fs.readdir\<close>. A path is modelled as the list of its segments below the
  root, so \<open>/a/b/c.png\<close> is \<open>[''a'', ''b'', ''c.png'']\<close> and the root is \<open>[]\<close>. A relative
  path (the result of \<open>path.relative\<close>) is a list of segments as well; the empty string is
  the empty list, so \<open>relDir.split(path.sep).filter(Boolean)\<close> is the filter below.
\<close>

type_synonym path = "string list"

definition valid_seg :: "string \<Rightarrow> bool" where
  "valid_seg s = (s \<noteq> [] \<and> s \<noteq> ''.'' \<and> s \<noteq> ''..'')"

text \<open>\<open>path.normalize\<close> on the segments of an absolute path: empty and \<open>.\<close> segments vanish,
  \<open>..\<close> removes the segment before it (and nothing at the root).\<close>

definition norm_step :: "path \<Rightarrow> string \<Rightarrow> path" where
  "norm_step acc s =
     (if s = [] \<or> s = ''.'' then acc else if s = ''..'' then butlast acc else acc @ [s])"

definition normalize :: "string list \<Rightarrow> path" where
  "normalize segs = foldl norm_step [] segs"

text \<open>\<open>path.join(a, b, ...)\<close>: concatenate, then normalise.\<close>

definition join :: "string list list \<Rightarrow> path" where
  "join ps = normalize (concat ps)"

text \<open>Splitting a path string at \<open>/\<close>.\<close>

fun split_sep :: "string \<Rightarrow> string list" where
  "split_sep [] = [[]]"
| "split_sep (c # cs) =
     (if c = CHR ''/'' then [] # split_sep cs
      else (case split_sep cs of [] \<Rightarrow> [[c]] | w # ws \<Rightarrow> (c # w) # ws))"

text \<open>\<open>path.resolve(s)\<close> in the working directory \<open>cwd\<close>.\<close>

definition resolve :: "path \<Rightarrow> string \<Rightarrow> path" where
  "resolve cwd s =
     normalize ((if s \<noteq> [] \<and> hd s = CHR ''/'' then [] else cwd) @ split_sep s)"

text \<open>\<open>path.relative(from, to)\<close> on two normalised absolute paths: drop the common prefix,
  climb out of what is left of \<open>from\<close>.\<close>

fun relative :: "path \<Rightarrow> path \<Rightarrow> path" where
  "relative (a # as) (b # bs) =
     (if a = b then relative as bs else replicate (Suc (length as)) ''..'' @ (b # bs))"
| "relative as bs = replicate (length as) ''..'' @ bs"

definition dirname :: "path \<Rightarrow> path" where
  "dirname p = butlast p"

definition basename :: "path \<Rightarrow> string" where
  "basename p = (if p = [] then [] else last p)"

text \<open>
  \<open>path.extname\<close> of Node on the last segment: the text from the last dot on, and the
  empty string when there is no dot, when the last dot is the first character, or when the
  segment is \<open>..\<close>.
\<close>

definition extname :: "string \<Rightarrow> string" where
  "extname name =
     (let r = rev name;
          after = takeWhile (\<lambda>c. c \<noteq> CHR ''.'') r;
          rest = dropWhile (\<lambda>c. c \<noteq> CHR ''.'') r
      in if rest = [] then []
         else if tl rest = [] then []
         else if name = ''..'' then []
         else CHR ''.'' # rev after)"

text \<open>
  \<open>path.basename(p, ext)\<close>: the last segment, without \<open>ext\<close> when it ends with \<open>ext\<close> and is
  not \<open>ext\<close> itself. (Node returns the empty string when \<open>ext\<close> is the whole path string;
  an absolute path starts with \<open>/\<close> and an extension does not.)
\<close>

definition basename_ext :: "path \<Rightarrow> string \<Rightarrow> string" where
  "basename_ext p ext =
     (let b = basename p
      in if ext \<noteq> [] \<and> suffix ext b \<and> ext \<noteq> b then take (length b - length ext) b else b)"

text \<open>\<open>String.prototype.toLowerCase\<close> on ASCII letters. (No character outside ASCII
  lower-cases to a letter of a supported extension.)\<close>

definition lower_char :: "char \<Rightarrow> char" where
  "lower_char c =
     (case map_of (zip ''ABCDEFGHIJKLMNOPQRSTUVWXYZ'' ''abcdefghijklmnopqrstuvwxyz'') c of
        None \<Rightarrow> c | Some d \<Rightarrow> d)"

definition toLowerCase :: "string \<Rightarrow> string" where
  "toLowerCase s = map lower_char s"

text \<open>A number in a template literal: its decimal digits.\<close>

definition digit_char :: "nat \<Rightarrow> char" where
  "digit_char d = ''0123456789'' ! d"

fun string_of_nat :: "nat \<Rightarrow> string" where
  "string_of_nat n =
     (if n < 10 then [digit_char n] else string_of_nat (n div 10) @ [digit_char (n mod 10)])"

declare string_of_nat.simps [simp del]

section \<open>Numbers and the command line\<close>

text \<open>A JavaScript number: not-a-number, an infinity, or a finite value (every double is a
  rational).\<close>

datatype jsnum = NaN | PosInf | NegInf | Fin rat

definition isFinite :: "jsnum \<Rightarrow> bool" where
  "isFinite v = (case v of Fin _ \<Rightarrow> True | _ \<Rightarrow> False)"

definition isInteger :: "jsnum \<Rightarrow> bool" where
  "isInteger v = (case v of Fin r \<Rightarrow> r = of_int \<lfloor>r\<rfloor> | _ \<Rightarrow> False)"

fun js_lt :: "jsnum \<Rightarrow> jsnum \<Rightarrow> bool" where
  "js_lt NaN _ = False"
| "js_lt _ NaN = False"
| "js_lt (Fin a) (Fin b) = (a < b)"
| "js_lt NegInf b = (b \<noteq> NegInf)"
| "js_lt a PosInf = (a \<noteq> PosInf)"
| "js_lt _ _ = False"

definition js_gt :: "jsnum \<Rightarrow> jsnum \<Rightarrow> bool" where
  "js_gt a b = js_lt b a"

text \<open>\<open>Number(x)\<close>, where \<open>x\<close> is a string or \<open>undefined\<close> (reading past the end of
  \<open>argv\<close>). The conversion of a string is JavaScript's and is a parameter \<open>num\<close>;
  \<open>Number(undefined)\<close> is \<open>NaN\<close>.\<close>

definition Number :: "(string \<Rightarrow> jsnum) \<Rightarrow> string option \<Rightarrow> jsnum" where
  "Number num x = (case x of None \<Rightarrow> NaN | Some s \<Rightarrow> num s)"

record flags =
  jpegQuality :: jsnum
  compressPNG :: bool
  pngQuality :: jsnum
  renameFiles :: bool
  forceDelete :: bool

record config = flags +
  srcDir :: path
  destDir :: path

text \<open>The ways the command line ends the process before any work: a quality out of range
  (\<open>process.exit(1)\<close>), and the usage text, printed by \<open>showHelp\<close>, which ends with
  \<open>process.exit()\<close> (status 0), for \<open>-h\<close> and after an unknown option.\<close>

datatype cli_exit = BadJpegQuality | BadPngQuality | HelpShown | UnknownOption string

definition exit_status :: "cli_exit \<Rightarrow> nat" where
  "exit_status x = (case x of BadJpegQuality \<Rightarrow> 1 | BadPngQuality \<Rightarrow> 1 | _ \<Rightarrow> 0)"

definition default_flags :: flags where
  "default_flags =
     \<lparr>jpegQuality = Fin 75, compressPNG = False, pngQuality = Fin 80,
      renameFiles = False, forceDelete = False\<rparr>"

definition out_of_range :: "jsnum \<Rightarrow> bool" where
  "out_of_range v = (\<not> isFinite v \<or> js_lt v (Fin 1) \<or> js_gt v (Fin 100))"

text \<open>The cases of \<open>switch (arg)\<close> (lines 81 to 119).\<close>

datatype cli_case =
  CaseQuality | CasePngQuality | CaseCompressPng | CaseRename | CaseForceDelete | CaseHelp
  | CaseDefault

definition switch_arg :: "string \<Rightarrow> cli_case" where
  "switch_arg arg =
     (if arg = ''-q'' \<or> arg = ''--quality'' then CaseQuality
      else if arg = ''-P'' \<or> arg = ''--png-quality'' then CasePngQuality
      else if arg = ''--compress-png'' then CaseCompressPng
      else if arg = ''--rename'' then CaseRename
      else if arg = ''--force-delete'' then CaseForceDelete
      else if arg = ''-h'' \<or> arg = ''--help'' then CaseHelp
      else CaseDefault)"

definition startsWith :: "string \<Rightarrow> string \<Rightarrow> bool" where
  "startsWith s p = prefix p s"

text \<open>\<open>argv[++i]\<close>: the next word, or \<open>undefined\<close> past the end.\<close>

definition next_word :: "string list \<Rightarrow> string option" where
  "next_word rest = (case rest of [] \<Rightarrow> None | v # _ \<Rightarrow> Some v)"

text \<open>The loop over \<open>argv\<close> of imageOptimizer.js (lines 78 to 123). The state of the loop is
  the five variables and \<open>posArgs\<close>; \<open>rest\<close> is \<open>argv\<close> after index \<open>i\<close>.\<close>

fun parseArgs :: "(string \<Rightarrow> jsnum) \<Rightarrow> string list \<Rightarrow> flags \<times> string list
    \<Rightarrow> cli_exit + flags \<times> string list" where
  "parseArgs num [] acc = Inr acc"
| "parseArgs num (arg # rest) (fl, pos) =
     (if startsWith arg ''-'' then
        (case switch_arg arg of
           CaseQuality \<Rightarrow>
             (if out_of_range (Number num (next_word rest)) then Inl BadJpegQuality
              else parseArgs num (tl rest)
                     (fl\<lparr>jpegQuality := Number num (next_word rest)\<rparr>, pos))
         | CasePngQuality \<Rightarrow>
             (if out_of_range (Number num (next_word rest)) then Inl BadPngQuality
              else parseArgs num (tl rest)
                     (fl\<lparr>pngQuality := Number num (next_word rest), compressPNG := True\<rparr>, pos))
         | CaseCompressPng \<Rightarrow> parseArgs num rest (fl\<lparr>compressPNG := True\<rparr>, pos)
         | CaseRename \<Rightarrow> parseArgs num rest (fl\<lparr>renameFiles := True\<rparr>, pos)
         | CaseForceDelete \<Rightarrow> parseArgs num rest (fl\<lparr>forceDelete := True\<rparr>, pos)
         | CaseHelp \<Rightarrow> Inl HelpShown
         | CaseDefault \<Rightarrow> Inl (UnknownOption arg))
      else parseArgs num rest (fl, pos @ [arg]))"

text \<open>\<open>posArgs[i] ?? d\<close>.\<close>

definition nth_or :: "string list \<Rightarrow> nat \<Rightarrow> string \<Rightarrow> string" where
  "nth_or xs i d = (if i < length xs then xs ! i else d)"

text \<open>Config resolution of imageOptimizer.js (lines 69 to 139).\<close>

definition resolveConfig :: "(string \<Rightarrow> jsnum) \<Rightarrow> path \<Rightarrow> string list \<Rightarrow> cli_exit + config" where
  "resolveConfig num cwd argv =
     (case parseArgs num argv (default_flags, []) of
        Inl x \<Rightarrow> Inl x
      | Inr (fl, pos) \<Rightarrow>
          Inr (flags.extend fl
                 \<lparr>srcDir = resolve cwd (nth_or pos 0 ''input''),
                  destDir = resolve cwd (nth_or pos 1 ''output'')\<rparr>))"

section \<open>Config resolution of the second script (src/unnamed/part_000)\<close>

text \<open>\<open>parseIntegerInRange(min, max)\<close> (lines 94 to 102): the parser given to both quality
  options; \<open>Inl\<close> is the \<open>Error\<close> it throws.\<close>

definition parseIntegerInRange :: "(string \<Rightarrow> jsnum) \<Rightarrow> int \<Rightarrow> int \<Rightarrow> string \<Rightarrow> unit + jsnum" where
  "parseIntegerInRange num lo hi v =
     (let parsed = Number num (Some v)
      in if \<not> isInteger parsed \<or> js_lt parsed (Fin (of_int lo)) \<or> js_gt parsed (Fin (of_int hi))
         then Inl () else Inr parsed)"

text \<open>What \<open>program.opts()\<close> returns: one key per declared option.\<close>

record options =
  opt_quality :: jsnum
  opt_compressPng :: bool
  opt_pngQuality :: jsnum
  opt_rename :: bool
  opt_forceDelete :: bool

text \<open>The defaults declared at lines 67 to 71.\<close>

definition default_options :: options where
  "default_options =
     \<lparr>opt_quality = Fin 75, opt_compressPng = False, opt_pngQuality = Fin 80,
      opt_rename = False, opt_forceDelete = False\<rparr>"

datatype cli_exit_b =
    ParserThrew            \<comment> \<open>the \<open>Error\<close> of \<open>parseIntegerInRange\<close>, uncaught: status 1\<close>
  | MissingArgument string \<comment> \<open>an option without its value: status 1\<close>
  | UsageShown             \<comment> \<open>\<open>-h\<close>, \<open>--help\<close>, \<open>-V\<close>, \<open>--version\<close>: status 0\<close>
  | OtherOption string     \<comment> \<open>any other word starting with \<open>-\<close>\<close>
  | PathTypeError          \<comment> \<open>\<open>path.resolve(undefined)\<close> throws: status 1\<close>

text \<open>
  The option table of lines 61 to 72, read as commander reads a command line whose options
  and values are separate words: an option with \<open><number>\<close> takes the next word and stores
  what its parser returns under its own key, a flag sets its own key, and every other
  word is an operand, collected in \<open>program.args\<close>. Other spellings commander accepts
  (\<open>--quality=80\<close>, \<open>-q80\<close>, \<open>--\<close>) are outside this model and end it with \<open>OtherOption\<close>.
\<close>

datatype option_b =
  OptQuality | OptCompressPng | OptPngQuality | OptRename | OptForceDelete | OptUsage
  | OptOther | Operand

definition option_of :: "string \<Rightarrow> option_b" where
  "option_of arg =
     (if arg = ''-q'' \<or> arg = ''--quality'' then OptQuality
      else if arg = ''--compress-png'' then OptCompressPng
      else if arg = ''-P'' \<or> arg = ''--png-quality'' then OptPngQuality
      else if arg = ''--rename'' then OptRename
      else if arg = ''--force-delete'' then OptForceDelete
      else if arg = ''-h'' \<or> arg = ''--help'' \<or> arg = ''-V'' \<or> arg = ''--version'' then OptUsage
      else if startsWith arg ''-'' \<and> arg \<noteq> ''-'' then OptOther
      else Operand)"

fun commander_parse :: "(string \<Rightarrow> jsnum) \<Rightarrow> string list \<Rightarrow> options \<times> string list
    \<Rightarrow> cli_exit_b + options \<times> string list" where
  "commander_parse num [] acc = Inr acc"
| "commander_parse num (arg # rest) (opts, args) =
     (case option_of arg of
        OptQuality \<Rightarrow>
          (case next_word rest of
             None \<Rightarrow> Inl (MissingArgument arg)
           | Some v \<Rightarrow>
               (case parseIntegerInRange num 1 100 v of
                  Inl _ \<Rightarrow> Inl ParserThrew
                | Inr n \<Rightarrow> commander_parse num (tl rest) (opts\<lparr>opt_quality := n\<rparr>, args)))
      | OptCompressPng \<Rightarrow> commander_parse num rest (opts\<lparr>opt_compressPng := True\<rparr>, args)
      | OptPngQuality \<Rightarrow>
          (case next_word rest of
             None \<Rightarrow> Inl (MissingArgument arg)
           | Some v \<Rightarrow>
               (case parseIntegerInRange num 1 100 v of
                  Inl _ \<Rightarrow> Inl ParserThrew
                | Inr n \<Rightarrow> commander_parse num (tl rest) (opts\<lparr>opt_pngQuality := n\<rparr>, args)))
      | OptRename \<Rightarrow> commander_parse num rest (opts\<lparr>opt_rename := True\<rparr>, args)
      | OptForceDelete \<Rightarrow> commander_parse num rest (opts\<lparr>opt_forceDelete := True\<rparr>, args)
      | OptUsage \<Rightarrow> Inl UsageShown
      | OptOther \<Rightarrow> Inl (OtherOption arg)
      | Operand \<Rightarrow> commander_parse num rest (opts, args @ [arg]))"

text \<open>
  Lines 74 to 84: the two directories are the first two operands (\<open>program.args\<close> holds
  the words given, not the declared defaults, and \<open>path.resolve\<close> throws on
  \<open>undefined\<close>), and each variable is read from its own key of \<open>options\<close>.
\<close>

definition resolveConfig_b :: "(string \<Rightarrow> jsnum) \<Rightarrow> path \<Rightarrow> string list \<Rightarrow> cli_exit_b + config" where
  "resolveConfig_b num cwd argv =
     (case commander_parse num argv (default_options, []) of
        Inl x \<Rightarrow> Inl x
      | Inr (opts, args) \<Rightarrow>
          (if length args < 2 then Inl PathTypeError
           else Inr \<lparr>jpegQuality = opt_quality opts,
                     compressPNG = (opt_compressPng opts \<or> False),
                     pngQuality = opt_pngQuality opts,
                     renameFiles = opt_rename opts,
                     forceDelete = opt_forceDelete opts,
                     srcDir = resolve cwd (args ! 0),
                     destDir = resolve cwd (args ! 1)\<rparr>))"

section \<open>The file system, the codec and the state of a run\<close>

datatype error =
    ENOENT | ENOTDIR | EEXIST | EISDIR | ENAMETOOLONG
  | SameFile        \<comment> \<open>sharp: the same file for input and output\<close>
  | InvalidOption   \<comment> \<open>sharp: an option \<open>.png()\<close> or \<open>.jpeg()\<close> refuses\<close>
  | CodecError nat  \<comment> \<open>any failure of decoding or encoding\<close>

text \<open>
  A node of the file system: a regular file with its content, a directory with the names
  \<open>readdir\<close> lists (in the order it lists them), or anything else (a link, a device).
  The file system maps each existing path to its node.
\<close>

datatype 'c node = File 'c | Dir "string list" | Other

type_synonym 'c files = "path \<Rightarrow> 'c node option"

text \<open>The type of a \<open>Dirent\<close>, read when \<open>readdir\<close> runs.\<close>

datatype kind = KFile | KDir | KOther

definition kind_of :: "'c node option \<Rightarrow> kind" where
  "kind_of x = (case x of Some (File _) \<Rightarrow> KFile | Some (Dir _) \<Rightarrow> KDir | _ \<Rightarrow> KOther)"

text \<open>The options of the encoders, as the scripts pass them, and the pipeline built from
  \<open>resize\<close> and the encoder.\<close>

datatype encoder =
    PngPalette jsnum   \<comment> \<open>\<open>png({quality, palette: true, compressionLevel: 9})\<close>\<close>
  | PngLossless        \<comment> \<open>\<open>png({compressionLevel: 9, adaptiveFiltering: true})\<close>\<close>
  | JpegMoz jsnum      \<comment> \<open>\<open>jpeg({quality, mozjpeg: true})\<close>\<close>

record pipeline =
  resize_width :: "nat option"
  encode :: encoder

text \<open>
  The external collaborators, as parameters: the codec (what \<open>metadata()\<close> reports as the
  width of a file's content, whether an encoder accepts its options, and the pixel work of
  \<open>toFile\<close>), and the longest path the file system accepts.
\<close>

record 'c platform =
  metadata_width :: "'c \<Rightarrow> error + nat option"
  encoder_ok :: "encoder \<Rightarrow> bool"
  render :: "'c \<Rightarrow> pipeline \<Rightarrow> error + 'c"
  path_max :: nat

text \<open>What a run does, in order: the calls that change the file system, the files written,
  and the lines printed per file.\<close>

datatype status = StatusPng jsnum | StatusPngLossless | StatusJpeg jsnum

datatype event =
    Mkdir path                     \<comment> \<open>\<open>fs.mkdir(p, {recursive: true})\<close> returned\<close>
  | Rm path                        \<comment> \<open>\<open>fs.rm(p, {recursive: true, force: true})\<close> returned\<close>
  | ToFile path path pipeline      \<comment> \<open>source, destination: \<open>pipeline.toFile\<close> returned\<close>
  | LogOk path path status bool    \<comment> \<open>the line of a file done: both relative paths\<close>
  | LogFail path error             \<comment> \<open>the line of a file that failed\<close>
  | LogDeleted                     \<comment> \<open>the previous output was deleted\<close>
  | LogDone                        \<comment> \<open>the last line\<close>

record 'c state =
  files :: "'c files"
  counters :: "string \<Rightarrow> nat option"
  trace :: "event list"

definition path_len :: "path \<Rightarrow> nat" where
  "path_len p = sum_list (map (\<lambda>s. Suc (length s)) p)"

definition existsSync :: "'c platform \<Rightarrow> 'c files \<Rightarrow> path \<Rightarrow> bool" where
  "existsSync plat fs p = (path_len p \<le> path_max plat \<and> fs p \<noteq> None)"

text \<open>\<open>fs.readdir(p, {withFileTypes: true})\<close>: the names with their types. It never lists
  \<open>.\<close> or \<open>..\<close>, no name is empty, and no name is listed twice.\<close>

definition readdir :: "'c platform \<Rightarrow> 'c files \<Rightarrow> path \<Rightarrow> error + (string \<times> kind) list" where
  "readdir plat fs p =
     (if path_max plat < path_len p then Inl ENAMETOOLONG
      else (case fs p of
              None \<Rightarrow> Inl ENOENT
            | Some (Dir names) \<Rightarrow>
                Inr (map (\<lambda>n. (n, kind_of (fs (p @ [n])))) (filter valid_seg (remdups names)))
            | Some _ \<Rightarrow> Inl ENOTDIR))"

text \<open>\<open>mkdir -p\<close> on the reversed path: nothing to do for a directory, an error for any
  other node, and otherwise the parent first and then the new entry in it.\<close>

fun mkdir_rev :: "string list \<Rightarrow> 'c files \<Rightarrow> error + 'c files" where
  "mkdir_rev [] fs =
     (case fs [] of
        Some (Dir _) \<Rightarrow> Inr fs
      | Some _ \<Rightarrow> Inl EEXIST
      | None \<Rightarrow> Inr (fs([] \<mapsto> Dir [])))"
| "mkdir_rev (n # rp) fs =
     (case fs (rev (n # rp)) of
        Some (Dir _) \<Rightarrow> Inr fs
      | Some _ \<Rightarrow> Inl EEXIST
      | None \<Rightarrow>
          (case mkdir_rev rp fs of
             Inl e \<Rightarrow> Inl ENOTDIR
           | Inr fs1 \<Rightarrow>
               (case fs1 (rev rp) of
                  Some (Dir names) \<Rightarrow>
                    Inr (fs1(rev rp \<mapsto> Dir (names @ [n]), rev (n # rp) \<mapsto> Dir []))
                | _ \<Rightarrow> Inl ENOTDIR)))"

text \<open>\<open>fs.mkdir(p, {recursive: true})\<close>.\<close>

definition mkdir :: "'c platform \<Rightarrow> path \<Rightarrow> 'c state \<Rightarrow> error + 'c state" where
  "mkdir plat p st =
     (if path_max plat < path_len p then Inl ENAMETOOLONG
      else (case mkdir_rev (rev p) (files st) of
              Inl e \<Rightarrow> Inl e
            | Inr fs \<Rightarrow> Inr (st\<lparr>files := fs, trace := trace st @ [Mkdir p]\<rparr>)))"

text \<open>\<open>fs.rm(p, {recursive: true, force: true})\<close>: \<open>p\<close> and everything below it goes, and
  its name leaves the parent.\<close>

definition rm_rf :: "path \<Rightarrow> 'c files \<Rightarrow> 'c files" where
  "rm_rf p fs =
     (\<lambda>q. if prefix p q then None
          else if p \<noteq> [] \<and> q = butlast p then
            (case fs q of Some (Dir names) \<Rightarrow> Some (Dir (removeAll (last p) names)) | x \<Rightarrow> x)
          else fs q)"

definition rm :: "path \<Rightarrow> 'c state \<Rightarrow> 'c state" where
  "rm p st = st\<lparr>files := rm_rf p (files st), trace := trace st @ [Rm p]\<rparr>"

text \<open>\<open>sharp(filePath).metadata()\<close>: the width of the image in the file, or a rejection.\<close>

definition sharp_metadata :: "'c platform \<Rightarrow> 'c files \<Rightarrow> path \<Rightarrow> error + nat option" where
  "sharp_metadata plat fs p =
     (case fs p of Some (File c) \<Rightarrow> metadata_width plat c | _ \<Rightarrow> Inl ENOENT)"

text \<open>\<open>pipeline.toFile(dest)\<close>: sharp refuses its own input as output; the directory of
  \<open>dest\<close> must exist and \<open>dest\<close> must be a regular file or new; a failure of the codec writes
  nothing.\<close>

definition toFile :: "'c platform \<Rightarrow> path \<Rightarrow> pipeline \<Rightarrow> path \<Rightarrow> 'c state \<Rightarrow> error + 'c state" where
  "toFile plat src pl dest st =
     (if src = dest then Inl SameFile
      else if path_max plat < path_len dest then Inl ENAMETOOLONG
      else (case files st src of
              Some (File c) \<Rightarrow>
                (case files st (dirname dest) of
                   Some (Dir names) \<Rightarrow>
                     (if dest = [] \<or> (case files st dest of None \<Rightarrow> False | Some (File _) \<Rightarrow> False | _ \<Rightarrow> True)
                      then Inl EISDIR
                      else (case render plat c pl of
                              Inl e \<Rightarrow> Inl e
                            | Inr c' \<Rightarrow>
                                Inr (st\<lparr>files := (files st)
                                           (dirname dest \<mapsto>
                                              Dir (if last dest \<in> set names then names
                                                   else names @ [last dest]),
                                            dest \<mapsto> File c'),
                                         trace := trace st @ [ToFile src dest pl]\<rparr>)))
                 | _ \<Rightarrow> Inl ENOENT)
            | _ \<Rightarrow> Inl ENOENT))"

section \<open>The per-file transcoder\<close>

text \<open>\<open>nextIndex\<close> (imageOptimizer.js, lines 169 to 173) and \<open>getNextIndex\<close> (part_000, lines
  224 to 228): \<open>counters.get(folder) || 1\<close>, then the counter goes up by one.\<close>

definition nextIndex :: "string \<Rightarrow> 'c state \<Rightarrow> nat \<times> 'c state" where
  "nextIndex folder st =
     (let n = (case counters st folder of None \<Rightarrow> 1 | Some k \<Rightarrow> if k = 0 then 1 else k)
      in (n, st\<lparr>counters := (counters st)(folder \<mapsto> n + 1)\<rparr>))"

text \<open>The values \<open>optimiseImage\<close> computes before it touches the codec, one definition per
  \<open>const\<close> of the source (lines 200 to 208).\<close>

definition relDir :: "config \<Rightarrow> path \<Rightarrow> path" where
  "relDir cfg filePath = relative (srcDir cfg) (dirname filePath)"

definition top_folder :: "config \<Rightarrow> path \<Rightarrow> string" where
  "top_folder cfg filePath =
     (let parts = filter (\<lambda>s. s \<noteq> []) (relDir cfg filePath)
      in if parts \<noteq> [] then hd parts else basename (srcDir cfg))"

definition baseName :: "path \<Rightarrow> string" where
  "baseName filePath = basename_ext filePath (extname (basename filePath))"

definition newBase :: "config \<Rightarrow> path \<Rightarrow> nat option \<Rightarrow> string" where
  "newBase cfg filePath idx =
     (case idx of
        Some n \<Rightarrow> top_folder cfg filePath @ ''-'' @ string_of_nat n
      | None \<Rightarrow> baseName filePath)"

definition destExt :: "string \<Rightarrow> string" where
  "destExt ext = (if ext = ''.png'' then ''.png'' else ''.jpg'')"

definition destPath :: "config \<Rightarrow> path \<Rightarrow> string \<Rightarrow> nat option \<Rightarrow> path" where
  "destPath cfg filePath ext idx =
     join [destDir cfg, relDir cfg filePath, [newBase cfg filePath idx @ destExt ext]]"

text \<open>\<open>renameFiles ? nextIndex(top) : null\<close>.\<close>

definition take_index :: "config \<Rightarrow> path \<Rightarrow> 'c state \<Rightarrow> nat option \<times> 'c state" where
  "take_index cfg filePath st =
     (if renameFiles cfg
      then (case nextIndex (top_folder cfg filePath) st of (n, st') \<Rightarrow> (Some n, st'))
      else (None, st))"

text \<open>\<open>meta.width && meta.width > 1920 ? 1920 : undefined\<close>.\<close>

definition resize_for :: "nat option \<Rightarrow> nat option" where
  "resize_for width =
     (case width of
        None \<Rightarrow> None
      | Some w \<Rightarrow> if w \<noteq> 0 \<and> 1920 < w then Some 1920 else None)"

definition encoder_for :: "config \<Rightarrow> string \<Rightarrow> encoder" where
  "encoder_for cfg ext =
     (if ext = ''.png''
      then (if compressPNG cfg then PngPalette (pngQuality cfg) else PngLossless)
      else JpegMoz (jpegQuality cfg))"

definition status_for :: "config \<Rightarrow> string \<Rightarrow> status" where
  "status_for cfg ext =
     (if ext = ''.png''
      then (if compressPNG cfg then StatusPng (pngQuality cfg) else StatusPngLossless)
      else StatusJpeg (jpegQuality cfg))"

definition log_ok :: "config \<Rightarrow> path \<Rightarrow> path \<Rightarrow> string \<Rightarrow> 'c state \<Rightarrow> 'c state" where
  "log_ok cfg filePath dest ext st =
     st\<lparr>trace := trace st @
          [LogOk (relative (srcDir cfg) filePath) (relative (destDir cfg) dest)
             (status_for cfg ext) (renameFiles cfg)]\<rparr>"

text \<open>
  The body of the \<open>try\<close> of \<open>optimiseImage\<close> in imageOptimizer.js (lines 200 to 228), in the
  order of the source: the index, the metadata, the pipeline, \<open>mkdir\<close>, \<open>toFile\<close>, the line
  printed. \<open>Inl\<close> is an exception, with the state it leaves behind.
\<close>

definition optimiseImage_body ::
  "'c platform \<Rightarrow> config \<Rightarrow> path \<Rightarrow> string \<Rightarrow> 'c state \<Rightarrow> error \<times> 'c state + 'c state" where
  "optimiseImage_body plat cfg filePath ext st =
     (case take_index cfg filePath st of
        (idx, st1) \<Rightarrow>
          (let dest = destPath cfg filePath ext idx
           in case sharp_metadata plat (files st1) filePath of
                Inl e \<Rightarrow> Inl (e, st1)
              | Inr width \<Rightarrow>
                  (let pl = \<lparr>resize_width = resize_for width, encode = encoder_for cfg ext\<rparr>
                   in if \<not> encoder_ok plat (encode pl) then Inl (InvalidOption, st1)
                      else (case mkdir plat (dirname dest) st1 of
                              Inl e \<Rightarrow> Inl (e, st1)
                            | Inr st2 \<Rightarrow>
                                (case toFile plat filePath pl dest st2 of
                                   Inl e \<Rightarrow> Inl (e, st2)
                                 | Inr st3 \<Rightarrow> Inr (log_ok cfg filePath dest ext st3))))))"

text \<open>The \<open>catch\<close>: the error is printed and the function returns.\<close>

definition catch_log :: "path \<Rightarrow> error \<times> 'c state + 'c state \<Rightarrow> 'c state" where
  "catch_log filePath r =
     (case r of
        Inr st \<Rightarrow> st
      | Inl (e, st) \<Rightarrow> st\<lparr>trace := trace st @ [LogFail filePath e]\<rparr>)"

definition optimiseImage :: "'c platform \<Rightarrow> config \<Rightarrow> path \<Rightarrow> string \<Rightarrow> 'c state \<Rightarrow> 'c state" where
  "optimiseImage plat cfg filePath ext st =
     catch_log filePath (optimiseImage_body plat cfg filePath ext st)"

text \<open>
  \<open>optimiseImage\<close> of part_000 (lines 130 to 190), with the names of that file. The
  extension is computed from the path, the resize options start empty and get a width
  only for a wide image, and \<open>mkdir\<close> comes before the codec is asked for the metadata.
\<close>

definition getNextIndex :: "string \<Rightarrow> 'c state \<Rightarrow> nat \<times> 'c state" where
  "getNextIndex folder st =
     (let current = (case counters st folder of None \<Rightarrow> 1 | Some k \<Rightarrow> if k = 0 then 1 else k)
      in (current, st\<lparr>counters := (counters st)(folder \<mapsto> current + 1)\<rparr>))"

definition topFolder :: "config \<Rightarrow> path \<Rightarrow> string" where
  "topFolder cfg filePath =
     (let relativeDir = relative (srcDir cfg) (dirname filePath);
          pathSegments = filter (\<lambda>s. s \<noteq> []) relativeDir
      in if length pathSegments \<noteq> 0 then pathSegments ! 0 else basename (srcDir cfg))"

definition destinationPath :: "config \<Rightarrow> path \<Rightarrow> nat option \<Rightarrow> path" where
  "destinationPath cfg filePath index =
     (let relativeDir = relative (srcDir cfg) (dirname filePath);
          originalName = basename_ext filePath (extname (basename filePath));
          baseName = (case index of
                        Some n \<Rightarrow> topFolder cfg filePath @ ''-'' @ string_of_nat n
                      | None \<Rightarrow> originalName);
          sourceExt = toLowerCase (extname (basename filePath));
          targetExt = (if sourceExt = ''.png'' then ''.png'' else ''.jpg'')
      in join [destDir cfg, relativeDir, [baseName @ targetExt]])"

definition resizeOptions :: "nat option \<Rightarrow> nat option" where
  "resizeOptions width =
     (if (case width of None \<Rightarrow> False | Some w \<Rightarrow> w \<noteq> 0 \<and> 1920 < w) then Some 1920 else None)"

definition pipeline_b :: "config \<Rightarrow> path \<Rightarrow> nat option \<Rightarrow> pipeline" where
  "pipeline_b cfg filePath width =
     (let sourceExt = toLowerCase (extname (basename filePath))
      in \<lparr>resize_width = resizeOptions width,
          encode = (if sourceExt = ''.png''
                    then (if compressPNG cfg then PngPalette (pngQuality cfg) else PngLossless)
                    else JpegMoz (jpegQuality cfg))\<rparr>)"

definition log_ok_b :: "config \<Rightarrow> path \<Rightarrow> path \<Rightarrow> 'c state \<Rightarrow> 'c state" where
  "log_ok_b cfg filePath dest st =
     (let sourceExt = toLowerCase (extname (basename filePath))
      in st\<lparr>trace := trace st @
             [LogOk (relative (srcDir cfg) filePath) (relative (destDir cfg) dest)
                (if sourceExt = ''.png''
                 then (if compressPNG cfg then StatusPng (pngQuality cfg) else StatusPngLossless)
                 else StatusJpeg (jpegQuality cfg))
                (renameFiles cfg)]\<rparr>)"

definition optimiseImage_body_b ::
  "'c platform \<Rightarrow> config \<Rightarrow> path \<Rightarrow> 'c state \<Rightarrow> error \<times> 'c state + 'c state" where
  "optimiseImage_body_b plat cfg filePath st =
     (case (if renameFiles cfg
            then (case getNextIndex (topFolder cfg filePath) st of (n, st') \<Rightarrow> (Some n, st'))
            else (None, st)) of
        (index, st1) \<Rightarrow>
          (case mkdir plat (dirname (destinationPath cfg filePath index)) st1 of
             Inl e \<Rightarrow> Inl (e, st1)
           | Inr st2 \<Rightarrow>
               (case sharp_metadata plat (files st2) filePath of
                  Inl e \<Rightarrow> Inl (e, st2)
                | Inr width \<Rightarrow>
                    (if \<not> encoder_ok plat (encode (pipeline_b cfg filePath width))
                     then Inl (InvalidOption, st2)
                     else (case toFile plat filePath (pipeline_b cfg filePath width)
                                  (destinationPath cfg filePath index) st2 of
                             Inl e \<Rightarrow> Inl (e, st2)
                           | Inr st3 \<Rightarrow>
                               Inr (log_ok_b cfg filePath (destinationPath cfg filePath index)
                                      st3))))))"

definition optimiseImage_b :: "'c platform \<Rightarrow> config \<Rightarrow> path \<Rightarrow> 'c state \<Rightarrow> 'c state" where
  "optimiseImage_b plat cfg filePath st =
     catch_log filePath (optimiseImage_body_b plat cfg filePath st)"

text \<open>The files a state's trace says were written.\<close>

fun written :: "event list \<Rightarrow> (path \<times> path \<times> pipeline) list" where
  "written [] = []"
| "written (ToFile src dst pl # es) = (src, dst, pl) # written es"
| "written (e # es) = written es"

section \<open>The tree walker\<close>

definition SUPPORTED_EXT :: "string list" where
  "SUPPORTED_EXT =
     [''.jpg'', ''.jpeg'', ''.png'', ''.webp'', ''.tiff'', ''.gif'', ''.avif'', ''.bmp'']"

definition supported :: "string \<Rightarrow> bool" where
  "supported ext = (ext \<in> set SUPPORTED_EXT)"

text \<open>How a run ends: the walk returned, an exception nobody catches, \<open>process.exit\<close>
  with its status, or the model's recursion budget ran out.\<close>

datatype 'c outcome =
    Done "'c state"
  | Crash error "'c state"
  | Exit nat "'c state"
  | OutOfFuel

text \<open>What the loop of \<open>processDir\<close> does with a subdirectory before it descends
  (lines 183 and 184).\<close>

definition mirror_dir :: "'c platform \<Rightarrow> config \<Rightarrow> path \<Rightarrow> 'c state \<Rightarrow> error + 'c state" where
  "mirror_dir plat cfg fullPath st =
     (let rel = relative (srcDir cfg) fullPath
      in mkdir plat (join [destDir cfg, rel]) st)"

text \<open>What it does with a regular file (lines 187 to 190).\<close>

definition dispatch_file :: "'c platform \<Rightarrow> config \<Rightarrow> path \<Rightarrow> string \<Rightarrow> 'c state \<Rightarrow> 'c state" where
  "dispatch_file plat cfg fullPath name st =
     (let ext = toLowerCase (extname name)
      in if supported ext then optimiseImage plat cfg fullPath ext st else st)"

text \<open>
  \<open>processDir\<close> (imageOptimizer.js, lines 178 to 193; \<open>processDirectory\<close> of part_000 is the
  same loop). The directory is read from the file system as it is when the call starts;
  the first argument bounds the depth of the recursion, and \<open>processEntries\<close> is the
  \<open>for\<close> loop over what \<open>readdir\<close> returned.
\<close>

fun processDir :: "'c platform \<Rightarrow> config \<Rightarrow> nat \<Rightarrow> path \<Rightarrow> 'c state \<Rightarrow> 'c outcome"
  and processEntries ::
    "'c platform \<Rightarrow> config \<Rightarrow> nat \<Rightarrow> path \<Rightarrow> (string \<times> kind) list \<Rightarrow> 'c state \<Rightarrow> 'c outcome" where
  "processDir plat cfg 0 dir st = OutOfFuel"
| "processDir plat cfg (Suc n) dir st =
     (case readdir plat (files st) dir of
        Inl e \<Rightarrow> Crash e st
      | Inr entries \<Rightarrow> processEntries plat cfg n dir entries st)"
| "processEntries plat cfg n dir [] st = Done st"
| "processEntries plat cfg n dir ((name, k) # rest) st =
     (case k of
        KDir \<Rightarrow>
          (case mirror_dir plat cfg (join [dir, [name]]) st of
             Inl e \<Rightarrow> Crash e st
           | Inr st1 \<Rightarrow>
               (case processDir plat cfg n (join [dir, [name]]) st1 of
                  Done st2 \<Rightarrow> processEntries plat cfg n dir rest st2
                | r \<Rightarrow> r))
      | KFile \<Rightarrow>
          processEntries plat cfg n dir rest (dispatch_file plat cfg (join [dir, [name]]) name st)
      | KOther \<Rightarrow> processEntries plat cfg n dir rest st)"

section \<open>Output preparation and the whole run\<close>

text \<open>
  The line typed at the prompt is a JavaScript string, a sequence of UTF-16 code units.
  \<open>String.prototype.trim\<close> strips, at both ends, the code units of the classes WhiteSpace and
  LineTerminator of ECMAScript: TAB, LF, VT, FF, CR, the space, the no-break space U+00A0,
  U+1680, U+2000 to U+200A, U+2028, U+2029, U+202F, U+205F, U+3000 and U+FEFF.
\<close>

type_synonym utf16 = "nat list"

definition is_space :: "nat \<Rightarrow> bool" where
  "is_space u =
     (if u < 0x100 then u \<in> set [0x09, 0x0A, 0x0B, 0x0C, 0x0D, 0x20, 0xA0]
      else u \<in> set [0x1680, 0x2028, 0x2029, 0x202F, 0x205F, 0x3000, 0xFEFF] \<or>
           (0x2000 \<le> u \<and> u \<le> 0x200A))"

definition trim :: "utf16 \<Rightarrow> utf16" where
  "trim s = rev (dropWhile is_space (rev (dropWhile is_space s)))"

text \<open>
  A pattern with the flag \<open>i\<close> (and no flag \<open>u\<close>) compares code units after \<open>Canonicalize\<close>:
  the upper-case form of the unit, except that a unit from 128 on is never turned into an
  ASCII one. So against the ASCII letters of a pattern only the ASCII letters count: the
  units \<open>a\<close> to \<open>z\<close> become \<open>A\<close> to \<open>Z\<close>, and every other unit is left as it is here (the
  upper-case form of a unit from 128 on is again from 128 on, so it matches no letter of
  the pattern either way).
\<close>

definition canonicalize :: "nat \<Rightarrow> nat" where
  "canonicalize u = (if 0x61 \<le> u \<and> u \<le> 0x7A then u - 0x20 else u)"

text \<open>\<open>/^y(es)?$/i.test(s)\<close>: the whole of \<open>s\<close> is \<open>y\<close> or \<open>yes\<close>, in either case
  (\<open>Y\<close> is 0x59, \<open>E\<close> is 0x45, \<open>S\<close> is 0x53).\<close>

definition test_y_es :: "utf16 \<Rightarrow> bool" where
  "test_y_es s = (map canonicalize s = [0x59] \<or> map canonicalize s = [0x59, 0x45, 0x53])"

text \<open>\<open>askYesNo\<close> (imageOptimizer.js, lines 59 to 64; part_000, lines 110 to 122): what the
  user typed, trimmed, against the pattern.\<close>

definition askYesNo :: "utf16 \<Rightarrow> bool" where
  "askYesNo answer = test_y_es (trim answer)"

text \<open>Lines 149 to 161 of imageOptimizer.js (242 to 258 of part_000): what happens to an
  output directory that exists.\<close>

definition clearOutput :: "'c platform \<Rightarrow> config \<Rightarrow> utf16 \<Rightarrow> 'c state \<Rightarrow> error \<times> 'c state + 'c state" where
  "clearOutput plat cfg answer st =
     (if existsSync plat (files st) (destDir cfg) then
        (case readdir plat (files st) (destDir cfg) of
           Inl e \<Rightarrow> Inl (e, st)
         | Inr entries \<Rightarrow>
             (if entries \<noteq> [] then
                (let doDelete = (if \<not> forceDelete cfg then askYesNo answer else forceDelete cfg)
                 in if doDelete
                    then Inr ((rm (destDir cfg) st)\<lparr>trace := trace (rm (destDir cfg) st) @ [LogDeleted]\<rparr>)
                    else Inr st)
              else Inr st))
      else Inr st)"

text \<open>Output preparation: the above, then \<open>fs.mkdir(destDir, {recursive: true})\<close>.\<close>

definition prepareOutput :: "'c platform \<Rightarrow> config \<Rightarrow> utf16 \<Rightarrow> 'c state \<Rightarrow> error \<times> 'c state + 'c state" where
  "prepareOutput plat cfg answer st =
     (case clearOutput plat cfg answer st of
        Inl x \<Rightarrow> Inl x
      | Inr st1 \<Rightarrow>
          (case mkdir plat (destDir cfg) st1 of
             Inl e \<Rightarrow> Inl (e, st1)
           | Inr st2 \<Rightarrow> Inr st2))"

definition initial_state :: "'c files \<Rightarrow> 'c state" where
  "initial_state fs = \<lparr>files = fs, counters = Map.empty, trace = []\<rparr>"

text \<open>The program from a resolved configuration: the input directory must exist, then
  output preparation, then the walk, then the last line.\<close>

definition run :: "'c platform \<Rightarrow> config \<Rightarrow> utf16 \<Rightarrow> nat \<Rightarrow> 'c state \<Rightarrow> 'c outcome" where
  "run plat cfg answer fuel st =
     (if \<not> existsSync plat (files st) (srcDir cfg) then Exit 1 st
      else (case prepareOutput plat cfg answer st of
              Inl (e, st1) \<Rightarrow> Crash e st1
            | Inr st1 \<Rightarrow>
                (case processDir plat cfg fuel (srcDir cfg) st1 of
                   Done st2 \<Rightarrow> Done (st2\<lparr>trace := trace st2 @ [LogDone]\<rparr>)
                 | r \<Rightarrow> r)))"

text \<open>The whole of imageOptimizer.js: config resolution, then the above.\<close>

definition main :: "'c platform \<Rightarrow> (string \<Rightarrow> jsnum) \<Rightarrow> path \<Rightarrow> string list \<Rightarrow> utf16 \<Rightarrow> nat
    \<Rightarrow> 'c files \<Rightarrow> 'c outcome" where
  "main plat num cwd argv answer fuel fs =
     (case resolveConfig num cwd argv of
        Inl x \<Rightarrow> Exit (exit_status x) (initial_state fs)
      | Inr cfg \<Rightarrow> run plat cfg answer fuel (initial_state fs))"

section \<open>The input tree\<close>

text \<open>
  What lies below a directory \<open>d\<close> of a file system \<open>F\<close>: the names \<open>d\<close> lists, and what
  lies below those of them that are directories.
\<close>

inductive in_tree :: "'c files \<Rightarrow> path \<Rightarrow> path \<Rightarrow> bool" for F :: "'c files" where
  child: "F d = Some (Dir names) \<Longrightarrow> n \<in> set names \<Longrightarrow> valid_seg n \<Longrightarrow> in_tree F d (d @ [n])"
| deeper: "F d = Some (Dir names) \<Longrightarrow> n \<in> set names \<Longrightarrow> valid_seg n \<Longrightarrow>
     F (d @ [n]) = Some (Dir ns) \<Longrightarrow> in_tree F (d @ [n]) q \<Longrightarrow> in_tree F d q"











text \<open>An output directory inside the input directory: \<open>/in\<close> holds the (empty) output
  directory \<open>out\<close> and, listed after it, an image.\<close>

definition ov_config :: config where
  "ov_config =
     \<lparr>jpegQuality = Fin 75, compressPNG = False, pngQuality = Fin 80,
      renameFiles = False, forceDelete = False, srcDir = [''in''], destDir = [''in'', ''out'']\<rparr>"

definition ov_files :: "nat files" where
  "ov_files =
     Map.empty
       ([] \<mapsto> Dir [''in''],
        [''in''] \<mapsto> Dir [''out'', ''z.png''],
        [''in'', ''out''] \<mapsto> Dir [],
        [''in'', ''z.png''] \<mapsto> File 100)"




text \<open>The events a step adds to the trace.\<close>

definition new_events :: "'c state \<Rightarrow> 'c state \<Rightarrow> event list" where
  "new_events st st' = drop (length (trace st)) (trace st')"

section \<open>An example world\<close>

text \<open>A codec whose file contents are widths (0 is a file it cannot decode), and a small
  input tree \<open>/in\<close> with a wide PNG, a text file and a subdirectory.\<close>

definition ex_platform :: "nat platform" where
  "ex_platform =
     \<lparr>metadata_width = (\<lambda>c. if c = 0 then Inl (CodecError 0) else Inr (Some c)),
      encoder_ok = (\<lambda>e. True),
      render = (\<lambda>c pl. Inr (case resize_width pl of None \<Rightarrow> c | Some w \<Rightarrow> w)),
      path_max = 40\<rparr>"

definition ex_config :: config where
  "ex_config =
     \<lparr>jpegQuality = Fin 75, compressPNG = False, pngQuality = Fin 80,
      renameFiles = False, forceDelete = False, srcDir = [''in''], destDir = [''out'']\<rparr>"

definition ex_files :: "nat files" where
  "ex_files =
     Map.empty
       ([] \<mapsto> Dir [''in''],
        [''in''] \<mapsto> Dir [''a.PNG'', ''sub'', ''notes.txt''],
        [''in'', ''a.PNG''] \<mapsto> File 3000,
        [''in'', ''notes.txt''] \<mapsto> File 5,
        [''in'', ''sub''] \<mapsto> Dir [''b.jpeg'', ''bad.gif''],
        [''in'', ''sub'', ''b.jpeg''] \<mapsto> File 800,
        [''in'', ''sub'', ''bad.gif''] \<mapsto> File 0)"




text \<open>The values a quality may take: the finite numbers from 1 to 100.\<close>

definition in_range :: "jsnum \<Rightarrow> bool" where
  "in_range v = (case v of Fin r \<Rightarrow> 1 \<le> r \<and> r \<le> 100 | _ \<Rightarrow> False)"

text \<open>An example of \<open>Number\<close> on strings: the value of a string of decimal digits, and
  \<open>NaN\<close> for a word that is not a number.\<close>

definition digit_val :: "char \<Rightarrow> nat" where
  "digit_val c = length (takeWhile (\<lambda>d. d \<noteq> c) ''0123456789'')"

definition ex_number :: "string \<Rightarrow> jsnum" where
  "ex_number s =
     (if s \<noteq> [] \<and> list_all (\<lambda>c. digit_val c < 10) s
      then Fin (of_nat (foldl (\<lambda>a c. 10 * a + digit_val c) 0 s)) else NaN)"

text \<open>The example tree with an output directory left by an earlier run.\<close>

definition ex_files_old :: "nat files" where
  "ex_files_old =
     ex_files
       ([] \<mapsto> Dir [''in'', ''out''],
        [''out''] \<mapsto> Dir [''old.jpg''],
        [''out'', ''old.jpg''] \<mapsto> File 7)"

text \<open>The answer \<open>yes\<close> at the prompt, as code units.\<close>

definition ex_yes :: utf16 where
  "ex_yes = [0x79, 0x65, 0x73]"

text \<open>Whether the contents of an existing output directory with these names get deleted
  (lines 151 to 156): it is not empty, and the flag or the user says so.\<close>

definition will_delete :: "config \<Rightarrow> utf16 \<Rightarrow> string list \<Rightarrow> bool" where
  "will_delete cfg answer names =
     (filter valid_seg names \<noteq> [] \<and> (forceDelete cfg \<or> askYesNo answer))"

text \<open>The state a run ends in, when it ends.\<close>

definition final_state :: "'c outcome \<Rightarrow> 'c state option" where
  "final_state r =
     (case r of Done st \<Rightarrow> Some st | Crash e st \<Rightarrow> Some st | Exit n st \<Rightarrow> Some st
      | OutOfFuel \<Rightarrow> None)"

text \<open>The lines printed per file, one for each call of \<open>optimiseImage\<close>.\<close>

definition is_log :: "event \<Rightarrow> bool" where
  "is_log e = (case e of LogOk _ _ _ _ \<Rightarrow> True | LogFail _ _ \<Rightarrow> True | _ \<Rightarrow> False)"

text \<open>The events of clearing the output directory.\<close>

definition is_clear :: "event \<Rightarrow> bool" where
  "is_clear e = (case e of Rm _ \<Rightarrow> True | LogDeleted \<Rightarrow> True | _ \<Rightarrow> False)"

text \<open>
  The rename counters against the trace: a call of \<open>optimiseImage\<close> ends with a file
  written or with the line of a failure, and either way it was a file processed under the
  top-folder name of its source.
\<close>

definition processed_top :: "config \<Rightarrow> event \<Rightarrow> string option" where
  "processed_top cfg e =
     (case e of
        ToFile src _ _ \<Rightarrow> Some (top_folder cfg src)
      | LogFail src _ \<Rightarrow> Some (top_folder cfg src)
      | _ \<Rightarrow> None)"

definition count_top :: "config \<Rightarrow> string \<Rightarrow> event list \<Rightarrow> nat" where
  "count_top cfg t tr = length (filter (\<lambda>e. processed_top cfg e = Some t) tr)"

definition counters_ok :: "config \<Rightarrow> 'c state \<Rightarrow> bool" where
  "counters_ok cfg st =
     (\<forall>t. counters st t =
        (if count_top cfg t (trace st) = 0 then None
         else Some (Suc (count_top cfg t (trace st)))))"

text \<open>The name \<open>optimiseImage\<close> gives the file it writes, before the extension.\<close>

definition expected_base :: "config \<Rightarrow> path \<Rightarrow> event list \<Rightarrow> string" where
  "expected_base cfg src before =
     (if renameFiles cfg
      then top_folder cfg src @ ''-'' @
           string_of_nat (Suc (count_top cfg (top_folder cfg src) before))
      else baseName src)"

definition numbered :: "config \<Rightarrow> event list \<Rightarrow> bool" where
  "numbered cfg tr =
     (\<forall>before src dst pl after. tr = before @ ToFile src dst pl # after \<longrightarrow>
        (basename dst = expected_base cfg src before @ ''.png'' \<or>
         basename dst = expected_base cfg src before @ ''.jpg''))"

text \<open>An input directory \<open>/photos\<close> with one image and a subdirectory of the same name,
  renamed on the way out.\<close>

definition cx_config :: config where
  "cx_config =
     \<lparr>jpegQuality = Fin 75, compressPNG = False, pngQuality = Fin 80,
      renameFiles = True, forceDelete = False, srcDir = [''photos''], destDir = [''out'']\<rparr>"

definition cx_files :: "nat files" where
  "cx_files =
     Map.empty
       ([] \<mapsto> Dir [''photos''],
        [''photos''] \<mapsto> Dir [''a.jpg'', ''photos''],
        [''photos'', ''a.jpg''] \<mapsto> File 100,
        [''photos'', ''photos''] \<mapsto> Dir [''b.jpg''],
        [''photos'', ''photos'', ''b.jpg''] \<mapsto> File 100)"

text \<open>The trace of the run on that tree: what comes before the first file written, the
  pipeline of both files, and what comes after the first.\<close>

definition cx_before :: "event list" where
  "cx_before = [Mkdir [''out''], Mkdir [''out'']]"

definition cx_pipeline :: pipeline where
  "cx_pipeline = \<lparr>resize_width = None, encode = JpegMoz (Fin 75)\<rparr>"

definition cx_after :: "event list" where
  "cx_after =
     [LogOk [''a.jpg''] [''photos-1.jpg''] (StatusJpeg (Fin 75)) True,
      Mkdir [''out'', ''photos''], Mkdir [''out'', ''photos''],
      ToFile [''photos'', ''photos'', ''b.jpg''] [''out'', ''photos'', ''photos-2.jpg'']
        cx_pipeline,
      LogOk [''photos'', ''b.jpg''] [''photos'', ''photos-2.jpg''] (StatusJpeg (Fin 75)) True,
      LogDone]"

section \<open>Basic facts\<close>

lemma mkdir_effect:
  "mkdir plat p st = Inr st' \<Longrightarrow> trace st' = trace st @ [Mkdir p] \<and> counters st' = counters st"
  by (auto simp: mkdir_def split: if_splits sum.splits)

lemma toFile_effect:
  "toFile plat src pl dest st = Inr st' \<Longrightarrow>
     trace st' = trace st @ [ToFile src dest pl] \<and> counters st' = counters st"
  by (auto simp: toFile_def split: if_splits sum.splits option.splits node.splits)

lemma take_index_effect:
  "take_index cfg f st = (idx, st1) \<Longrightarrow> trace st1 = trace st \<and> files st1 = files st"
  by (auto simp: take_index_def nextIndex_def Let_def split: if_splits)

text \<open>The three ways a call of \<open>optimiseImage\<close> ends: an exception before \<open>mkdir\<close> returned,
  an exception of \<open>toFile\<close>, or a file written.\<close>

lemma optimiseImage_cases:
  fixes ext :: string
  assumes ti: "take_index cfg f st = (idx, st1)"
  defines "dest \<equiv> destPath cfg f ext idx"
  obtains
    (early) e where "optimiseImage plat cfg f ext st = st1\<lparr>trace := trace st @ [LogFail f e]\<rparr>"
  | (late) e st2 where "mkdir plat (dirname dest) st1 = Inr st2"
      "optimiseImage plat cfg f ext st =
         st2\<lparr>trace := trace st @ [Mkdir (dirname dest), LogFail f e]\<rparr>"
  | (ok) w st2 st3 where "sharp_metadata plat (files st) f = Inr w"
      "mkdir plat (dirname dest) st1 = Inr st2"
      "toFile plat f \<lparr>resize_width = resize_for w, encode = encoder_for cfg ext\<rparr> dest st2 = Inr st3"
      "optimiseImage plat cfg f ext st = log_ok cfg f dest ext st3"
proof -
  from take_index_effect[OF ti] have t1: "trace st1 = trace st" and f1: "files st1 = files st"
    by auto
  show thesis
  proof (cases "sharp_metadata plat (files st) f")
    case (Inl e)
    then show ?thesis using ti t1 f1
      by (intro early[of e]) (simp add: optimiseImage_def optimiseImage_body_def catch_log_def)
  next
    case (Inr w)
    note meta = this
    show ?thesis
    proof (cases "encoder_ok plat (encoder_for cfg ext)")
      case False
      then show ?thesis using ti t1 f1 meta
        by (intro early[of InvalidOption])
          (simp add: optimiseImage_def optimiseImage_body_def catch_log_def)
    next
      case True
      note enc = this
      show ?thesis
      proof (cases "mkdir plat (dirname dest) st1")
        case (Inl e)
        then show ?thesis using ti t1 f1 meta enc
          by (intro early[of e])
            (simp add: optimiseImage_def optimiseImage_body_def catch_log_def dest_def)
      next
        case (Inr st2)
        note mk = this
        from mkdir_effect[OF mk] t1 have t2: "trace st2 = trace st @ [Mkdir (dirname dest)]"
          by simp
        show ?thesis
        proof (cases "toFile plat f \<lparr>resize_width = resize_for w, encode = encoder_for cfg ext\<rparr>
                        dest st2")
          case (Inl e)
          then show ?thesis using ti t1 f1 meta enc mk t2
            by (intro late[of st2 e])
              (simp_all add: optimiseImage_def optimiseImage_body_def catch_log_def dest_def)
        next
          case (Inr st3)
          then show ?thesis using ti t1 f1 meta enc mk
            by (intro ok[of w st2 st3])
              (simp_all add: optimiseImage_def optimiseImage_body_def catch_log_def dest_def)
        qed
      qed
    qed
  qed
qed

lemmas ex_defs = ex_platform_def ex_config_def ex_files_def initial_state_def

lemmas opt_defs = optimiseImage_def optimiseImage_body_def catch_log_def take_index_def
  nextIndex_def destPath_def relDir_def top_folder_def baseName_def newBase_def destExt_def
  resize_for_def encoder_for_def status_for_def log_ok_def sharp_metadata_def mkdir_def
  toFile_def new_events_def Let_def

lemmas path_defs = join_def normalize_def norm_step_def dirname_def basename_def
  basename_ext_def extname_def toLowerCase_def lower_char_def path_len_def suffix_to_prefix

text \<open>What one call of \<open>optimiseImage\<close> adds to the trace.\<close>

lemma new_events_optimiseImage:
  fixes ext :: string
  assumes ti: "take_index cfg f st = (idx, st1)"
  shows "(\<exists>e. new_events st (optimiseImage plat cfg f ext st) = [LogFail f e])
    \<or> (\<exists>e. new_events st (optimiseImage plat cfg f ext st) =
            [Mkdir (dirname (destPath cfg f ext idx)), LogFail f e])
    \<or> (\<exists>w c. files st f = Some (File c) \<and> metadata_width plat c = Inr w \<and>
          new_events st (optimiseImage plat cfg f ext st) =
           [Mkdir (dirname (destPath cfg f ext idx)),
            ToFile f (destPath cfg f ext idx)
              \<lparr>resize_width = resize_for w, encode = encoder_for cfg ext\<rparr>,
            LogOk (relative (srcDir cfg) f) (relative (destDir cfg) (destPath cfg f ext idx))
              (status_for cfg ext) (renameFiles cfg)])"
proof (rule optimiseImage_cases[OF ti, of plat ext], goal_cases)
  case (1 e)
  then show ?thesis by (simp add: new_events_def)
next
  case (2 e st2)
  then show ?thesis by (simp add: new_events_def)
next
  case ok: (3 w st2 st3)
  from ok(1) obtain c where c: "files st f = Some (File c)" "metadata_width plat c = Inr w"
    by (auto simp: sharp_metadata_def split: option.splits node.splits)
  from take_index_effect[OF ti] have t1: "trace st1 = trace st" by simp
  from mkdir_effect[OF ok(2)] toFile_effect[OF ok(3)] t1 ok(4) c
  show ?thesis by (simp add: new_events_def log_ok_def)
qed

lemma ex_wide_png:
  "new_events (initial_state ex_files)
     (optimiseImage ex_platform ex_config [''in'', ''a.PNG''] ''.png'' (initial_state ex_files))
   = [Mkdir [''out''],
      ToFile [''in'', ''a.PNG''] [''out'', ''a.png'']
        \<lparr>resize_width = Some 1920, encode = PngLossless\<rparr>,
      LogOk [''a.PNG''] [''a.png''] StatusPngLossless False]"
  by (simp add: ex_defs opt_defs path_defs)

subsection \<open>Paths\<close>

lemma foldl_norm_step_valid:
  "\<forall>s\<in>set xs. valid_seg s \<Longrightarrow> foldl norm_step acc xs = acc @ xs"
  by (induction xs arbitrary: acc) (auto simp: norm_step_def valid_seg_def)

lemma normalize_valid: "\<forall>s\<in>set xs. valid_seg s \<Longrightarrow> normalize xs = xs"
  by (simp add: normalize_def foldl_norm_step_valid)

lemma normalize_snoc: "valid_seg s \<Longrightarrow> normalize (xs @ [s]) = normalize xs @ [s]"
  by (simp add: normalize_def norm_step_def valid_seg_def)

lemma relative_nil: "relative [] ys = ys"
  by (cases ys) simp_all

lemma relative_prefix: "relative xs (xs @ ys) = ys"
  by (induction xs) (simp_all add: relative_nil)

lemma valid_seg_ext: "valid_seg (b @ destExt ext)"
  by (auto simp: valid_seg_def destExt_def Cons_eq_append_conv append_eq_Cons_conv)

lemma basename_destPath: "basename (destPath cfg f ext idx) = newBase cfg f idx @ destExt ext"
  using normalize_snoc[OF valid_seg_ext, of "destDir cfg @ relDir cfg f" "newBase cfg f idx" ext]
  by (simp add: destPath_def join_def basename_def)

lemma dirname_destPath:
  "dirname (destPath cfg f ext idx) = normalize (destDir cfg @ relDir cfg f)"
  using normalize_snoc[OF valid_seg_ext, of "destDir cfg @ relDir cfg f" "newBase cfg f idx" ext]
  by (simp add: destPath_def join_def dirname_def)

section \<open>The per-file transcoder: resize and format\<close>

text \<open>
  C3. The per-file transcoder resizes only if needed. Whenever \<open>optimiseImage\<close> writes a
  file, the codec reported a width \<open>w\<close> for the source; the pipeline written resizes to
  width 1920 when \<open>w\<close> exceeds 1920, and asks for no resize (sharp then leaves the
  dimensions as they are) when \<open>w\<close> is at most 1920 or unknown.
\<close>

theorem resize_only_if_needed:
  assumes "ToFile src dst pl \<in> set (new_events st (optimiseImage plat cfg filePath ext st))"
  shows "\<exists>c w. src = filePath \<and> files st filePath = Some (File c) \<and>
           metadata_width plat c = Inr w \<and>
           (\<forall>n. w = Some n \<and> 1920 < n \<longrightarrow> resize_width pl = Some 1920) \<and>
           ((w = None \<or> (\<exists>n. w = Some n \<and> n \<le> 1920)) \<longrightarrow> resize_width pl = None)"
proof -
  obtain idx st1 where ti: "take_index cfg filePath st = (idx, st1)"
    by (cases "take_index cfg filePath st")
  from new_events_optimiseImage[OF ti, of plat ext] assms
  show ?thesis by (auto simp: resize_for_def)
qed

theorem resize_only_if_needed_witness:
  "ToFile [''in'', ''a.PNG''] [''out'', ''a.png'']
       \<lparr>resize_width = Some 1920, encode = PngLossless\<rparr>
     \<in> set (new_events (initial_state ex_files)
         (optimiseImage ex_platform ex_config [''in'', ''a.PNG''] ''.png''
            (initial_state ex_files)))
   \<and> metadata_width ex_platform 3000 = Inr (Some 3000)
   \<and> resize_width \<lparr>resize_width = Some 1920, encode = PngLossless\<rparr> = Some 1920"
proof -
  have h: "ToFile [''in'', ''a.PNG''] [''out'', ''a.png'']
       \<lparr>resize_width = Some 1920, encode = PngLossless\<rparr>
     \<in> set (new_events (initial_state ex_files)
         (optimiseImage ex_platform ex_config [''in'', ''a.PNG''] ''.png''
            (initial_state ex_files)))"
    by (simp add: ex_wide_png)
  from resize_only_if_needed[OF h] h show ?thesis by (simp add: ex_platform_def)
qed

text \<open>
  C2. The per-file transcoder re-encodes per format rule. Whenever \<open>optimiseImage\<close>, called
  with the lower-cased extension of the source file as \<open>processDir\<close> calls it, writes a
  file: for the extension \<open>.png\<close> the encoder is the palette PNG encoder at the configured
  PNG quality when the compress-PNG flag is set and the lossless PNG encoder otherwise,
  and the name written ends in \<open>.png\<close>; for any other extension the encoder is the JPEG
  encoder at the configured JPEG quality and the name written ends in \<open>.jpg\<close>.
\<close>

theorem encode_per_format:
  assumes "ToFile src dst pl \<in> set (new_events st
             (optimiseImage plat cfg filePath (toLowerCase (extname (basename filePath))) st))"
  shows "(toLowerCase (extname (basename filePath)) = ''.png'' \<longrightarrow>
            encode pl = (if compressPNG cfg then PngPalette (pngQuality cfg) else PngLossless) \<and>
            suffix ''.png'' (basename dst)) \<and>
         (toLowerCase (extname (basename filePath)) \<noteq> ''.png'' \<longrightarrow>
            encode pl = JpegMoz (jpegQuality cfg) \<and> suffix ''.jpg'' (basename dst))"
proof -
  obtain idx st1 where ti: "take_index cfg filePath st = (idx, st1)"
    by (cases "take_index cfg filePath st")
  from new_events_optimiseImage[OF ti, of plat "toLowerCase (extname (basename filePath))"] assms
  show ?thesis by (auto simp: encoder_for_def basename_destPath destExt_def suffix_def)
qed

lemma ex_ext_png: "toLowerCase (extname (basename [''in'', ''a.PNG''])) = ''.png''"
  by (simp add: path_defs Let_def)

lemma ex_ext_jpeg: "toLowerCase (extname (basename [''in'', ''sub'', ''b.jpeg''])) = ''.jpeg''"
  by (simp add: path_defs Let_def)

lemma ex_small_jpeg:
  "new_events (initial_state ex_files)
     (optimiseImage ex_platform ex_config [''in'', ''sub'', ''b.jpeg''] ''.jpeg'' (initial_state ex_files))
   = [Mkdir [''out'', ''sub''],
      ToFile [''in'', ''sub'', ''b.jpeg''] [''out'', ''sub'', ''b.jpg'']
        \<lparr>resize_width = None, encode = JpegMoz (Fin 75)\<rparr>,
      LogOk [''sub'', ''b.jpeg''] [''sub'', ''b.jpg''] (StatusJpeg (Fin 75)) False]"
  by (simp add: ex_defs opt_defs path_defs)

theorem encode_per_format_witness:
  "ToFile [''in'', ''sub'', ''b.jpeg''] [''out'', ''sub'', ''b.jpg'']
        \<lparr>resize_width = None, encode = JpegMoz (Fin 75)\<rparr>
     \<in> set (new_events (initial_state ex_files)
          (optimiseImage ex_platform ex_config [''in'', ''sub'', ''b.jpeg'']
             (toLowerCase (extname (basename [''in'', ''sub'', ''b.jpeg''])))
             (initial_state ex_files)))
   \<and> toLowerCase (extname (basename [''in'', ''sub'', ''b.jpeg''])) \<noteq> ''.png''
   \<and> encode \<lparr>resize_width = None, encode = JpegMoz (Fin 75)\<rparr> = JpegMoz (jpegQuality ex_config)
   \<and> suffix ''.jpg'' (basename [''out'', ''sub'', ''b.jpg''])"
proof -
  have h: "ToFile [''in'', ''sub'', ''b.jpeg''] [''out'', ''sub'', ''b.jpg'']
        \<lparr>resize_width = None, encode = JpegMoz (Fin 75)\<rparr>
     \<in> set (new_events (initial_state ex_files)
          (optimiseImage ex_platform ex_config [''in'', ''sub'', ''b.jpeg'']
             (toLowerCase (extname (basename [''in'', ''sub'', ''b.jpeg''])))
             (initial_state ex_files)))"
    by (simp add: ex_ext_jpeg ex_small_jpeg)
  from encode_per_format[OF h] h show ?thesis by (simp add: ex_ext_jpeg)
qed

section \<open>The per-file transcoder: the destination\<close>

lemma toFile_files:
  assumes "toFile plat src pl dest st = Inr st'"
  shows "\<exists>c names. files st' dest = Some (File c) \<and>
           files st' (dirname dest) = Some (Dir names) \<and> basename dest \<in> set names"
proof -
  from assms have ne: "dest \<noteq> []"
    by (auto simp: toFile_def split: if_splits sum.splits option.splits node.splits)
  then have "dirname dest \<noteq> dest"
    by (metis dirname_def length_butlast diff_less length_greater_0_conv less_irrefl zero_less_one)
  with assms ne show ?thesis
    by (auto simp: toFile_def basename_def split: if_splits sum.splits option.splits node.splits)
qed

text \<open>
  C1. For a file at relative directory \<open>r\<close> of the input tree (its path is \<open>srcDir\<close>, then
  \<open>r\<close>, then its name), whatever \<open>optimiseImage\<close> writes goes to the directory \<open>destDir\<close>,
  then \<open>r\<close>: the same relative directory of the output tree. After the call that directory
  exists and lists the file written. (The segments of \<open>destDir\<close> and \<open>r\<close> are names: none
  is empty, \<open>.\<close> or \<open>..\<close>.)
\<close>

theorem mirrored_destination:
  assumes valid: "\<forall>s\<in>set (destDir cfg @ r). valid_seg s"
    and wr: "ToFile src dst pl \<in> set (new_events st
               (optimiseImage plat cfg (srcDir cfg @ r @ [name]) ext st))"
  shows "src = srcDir cfg @ r @ [name] \<and> dirname dst = destDir cfg @ r \<and>
         (\<exists>c names. files (optimiseImage plat cfg (srcDir cfg @ r @ [name]) ext st) dst = Some (File c) \<and>
            files (optimiseImage plat cfg (srcDir cfg @ r @ [name]) ext st) (destDir cfg @ r) = Some (Dir names) \<and>
            basename dst \<in> set names)"
proof -
  let ?f = "srcDir cfg @ r @ [name]"
  obtain idx st1 where ti: "take_index cfg ?f st = (idx, st1)"
    by (cases "take_index cfg ?f st")
  have rel: "relDir cfg ?f = r"
    using relative_prefix[of "srcDir cfg" r] by (simp add: relDir_def dirname_def butlast_append)
  have dir: "dirname (destPath cfg ?f ext idx) = destDir cfg @ r"
    using normalize_valid[OF valid] by (simp add: dirname_destPath rel)
  from take_index_effect[OF ti] have t1: "trace st1 = trace st" by simp
  show ?thesis
  proof (rule optimiseImage_cases[OF ti, of plat ext], goal_cases)
    case (1 e)
    with wr show ?thesis by (simp add: new_events_def)
  next
    case (2 e st2)
    with wr show ?thesis by (simp add: new_events_def)
  next
    case ok: (3 w st2 st3)
    from mkdir_effect[OF ok(2)] toFile_effect[OF ok(3)] t1 ok(4) wr
    have eq: "src = ?f" "dst = destPath cfg ?f ext idx"
      by (auto simp: new_events_def log_ok_def)
    from toFile_files[OF ok(3)] ok(4) eq dir show ?thesis
      by (auto simp: log_ok_def)
  qed
qed

lemma ex_valid: "\<forall>s\<in>set (destDir ex_config @ [''sub'']). valid_seg s"
  by (simp add: ex_config_def valid_seg_def)

theorem mirrored_destination_witness:
  "list_all valid_seg (destDir ex_config @ [''sub'']) \<and>
   ToFile [''in'', ''sub'', ''b.jpeg''] [''out'', ''sub'', ''b.jpg'']
        \<lparr>resize_width = None, encode = JpegMoz (Fin 75)\<rparr>
     \<in> set (new_events (initial_state ex_files)
          (optimiseImage ex_platform ex_config (srcDir ex_config @ [''sub''] @ [''b.jpeg'']) ''.jpeg''
             (initial_state ex_files))) \<and>
   dirname [''out'', ''sub'', ''b.jpg''] = destDir ex_config @ [''sub'']"
proof -
  have h: "ToFile [''in'', ''sub'', ''b.jpeg''] [''out'', ''sub'', ''b.jpg'']
        \<lparr>resize_width = None, encode = JpegMoz (Fin 75)\<rparr>
     \<in> set (new_events (initial_state ex_files)
          (optimiseImage ex_platform ex_config (srcDir ex_config @ [''sub''] @ [''b.jpeg'']) ''.jpeg''
             (initial_state ex_files)))"
    using ex_small_jpeg by (simp add: ex_config_def)
  from mirrored_destination[OF ex_valid h] ex_valid h show ?thesis
    by (simp add: list_all_iff)
qed

section \<open>The two transcoders\<close>

lemma written_append: "written (xs @ ys) = written xs @ written ys"
  by (induction xs rule: written.induct) simp_all

lemma mkdir_rev_keeps_files:
  "mkdir_rev rp fs = Inr fs' \<Longrightarrow> (fs' p = Some (File c)) = (fs p = Some (File c))"
proof (induction rp arbitrary: fs')
  case Nil
  then show ?case by (auto split: option.splits node.splits if_splits)
next
  case (Cons n rp)
  show ?case
  proof (cases "fs (rev (n # rp))")
    case (Some x)
    with Cons.prems show ?thesis by (cases x) auto
  next
    case None
    with Cons.prems obtain fs1 names where
      1: "mkdir_rev rp fs = Inr fs1" and 2: "fs1 (rev rp) = Some (Dir names)"
      and 3: "fs' = fs1(rev rp \<mapsto> Dir (names @ [n]), rev (n # rp) \<mapsto> Dir [])"
      by (auto split: sum.splits option.splits node.splits)
    from Cons.IH[OF 1] have ih: "(fs1 p = Some (File c)) = (fs p = Some (File c))" .
    show ?thesis using None 2 3 ih by auto
  qed
qed

lemma mkdir_keeps_files:
  "mkdir plat d st = Inr st' \<Longrightarrow> (files st' p = Some (File c)) = (files st p = Some (File c))"
proof -
  assume a: "mkdir plat d st = Inr st'"
  then obtain fs' where 1: "mkdir_rev (rev d) (files st) = Inr fs'" and 2: "files st' = fs'"
    by (auto simp: mkdir_def split: if_splits sum.splits)
  from mkdir_rev_keeps_files[OF 1, of p c] 2 show ?thesis by simp
qed

lemma mkdir_metadata:
  assumes "mkdir plat d st = Inr st'"
  shows "sharp_metadata plat (files st') f = sharp_metadata plat (files st) f"
proof (cases "\<exists>c. files st f = Some (File c)")
  case True
  then obtain c where c: "files st f = Some (File c)" by blast
  with mkdir_keeps_files[OF assms, of f c] show ?thesis by (simp add: sharp_metadata_def)
next
  case False
  with mkdir_keeps_files[OF assms, of f] have "\<nexists>c. files st' f = Some (File c)" by simp
  with False show ?thesis
    by (auto simp: sharp_metadata_def split: option.splits node.splits)
qed

lemma topFolder_eq: "topFolder cfg f = top_folder cfg f"
  by (simp add: topFolder_def top_folder_def relDir_def Let_def hd_conv_nth)

lemma getNextIndex_eq: "getNextIndex t st = nextIndex t st"
  by (simp add: getNextIndex_def nextIndex_def)

lemma destinationPath_eq:
  "destinationPath cfg f idx = destPath cfg f (toLowerCase (extname (basename f))) idx"
  by (simp add: destinationPath_def destPath_def relDir_def newBase_def baseName_def destExt_def
      topFolder_eq Let_def split: option.splits)

lemma pipeline_b_eq:
  "pipeline_b cfg f w =
     \<lparr>resize_width = resize_for w, encode = encoder_for cfg (toLowerCase (extname (basename f)))\<rparr>"
  by (simp add: pipeline_b_def resizeOptions_def resize_for_def encoder_for_def Let_def
      split: option.splits)

lemma body_a:
  fixes ext :: string
  assumes "take_index cfg f st = (i, st1)"
  shows "optimiseImage_body plat cfg f ext st =
    (case sharp_metadata plat (files st1) f of
       Inl e \<Rightarrow> Inl (e, st1)
     | Inr w \<Rightarrow>
         if \<not> encoder_ok plat (encoder_for cfg ext) then Inl (InvalidOption, st1)
         else (case mkdir plat (dirname (destPath cfg f ext i)) st1 of
                 Inl e \<Rightarrow> Inl (e, st1)
               | Inr st2 \<Rightarrow>
                   (case toFile plat f \<lparr>resize_width = resize_for w, encode = encoder_for cfg ext\<rparr>
                           (destPath cfg f ext i) st2 of
                      Inl e \<Rightarrow> Inl (e, st2)
                    | Inr st3 \<Rightarrow> Inr (log_ok cfg f (destPath cfg f ext i) ext st3))))"
  using assms by (simp add: optimiseImage_body_def Let_def cong: sum.case_cong)

lemma log_ok_b_eq:
  "log_ok_b cfg f d st = log_ok cfg f d (toLowerCase (extname (basename f))) st"
  by (simp add: log_ok_b_def log_ok_def status_for_def Let_def)

lemma body_b:
  assumes "take_index cfg f st = (i, st1)"
  shows "optimiseImage_body_b plat cfg f st =
    (case mkdir plat (dirname (destPath cfg f (toLowerCase (extname (basename f))) i)) st1 of
       Inl e \<Rightarrow> Inl (e, st1)
     | Inr st2 \<Rightarrow>
         (case sharp_metadata plat (files st2) f of
            Inl e \<Rightarrow> Inl (e, st2)
          | Inr w \<Rightarrow>
              if \<not> encoder_ok plat (encoder_for cfg (toLowerCase (extname (basename f))))
              then Inl (InvalidOption, st2)
              else (case toFile plat f
                           \<lparr>resize_width = resize_for w,
                            encode = encoder_for cfg (toLowerCase (extname (basename f)))\<rparr>
                           (destPath cfg f (toLowerCase (extname (basename f))) i) st2 of
                      Inl e \<Rightarrow> Inl (e, st2)
                    | Inr st3 \<Rightarrow>
                        Inr (log_ok cfg f (destPath cfg f (toLowerCase (extname (basename f))) i)
                               (toLowerCase (extname (basename f))) st3))))"
proof -
  from assms have "(if renameFiles cfg
            then (case getNextIndex (topFolder cfg f) st of (n, st') \<Rightarrow> (Some n, st'))
            else (None, st)) = (i, st1)"
    by (simp add: take_index_def topFolder_eq getNextIndex_eq split: if_splits)
  then show ?thesis
    unfolding optimiseImage_body_b_def destinationPath_eq pipeline_b_eq log_ok_b_eq
    by (simp cong: sum.case_cong)
qed

text \<open>
  C10. For every configuration, codec, state and source path, \<open>optimiseImage\<close> of part_000
  and \<open>optimiseImage\<close> of imageOptimizer.js (given the lower-cased extension of the path, as
  \<open>processDir\<close> gives it) compute the same destination path from the same index and the
  same resize and encoder settings from the same width; they write the same files with
  the same settings, and leave the same rename counters.
\<close>

theorem transcoders_agree:
  "destinationPath cfg filePath idx = destPath cfg filePath (toLowerCase (extname (basename filePath))) idx \<and>
   pipeline_b cfg filePath w =
     \<lparr>resize_width = resize_for w,
      encode = encoder_for cfg (toLowerCase (extname (basename filePath)))\<rparr> \<and>
   written (trace (optimiseImage_b plat cfg filePath st)) =
     written (trace (optimiseImage plat cfg filePath (toLowerCase (extname (basename filePath))) st)) \<and>
   counters (optimiseImage_b plat cfg filePath st) =
     counters (optimiseImage plat cfg filePath (toLowerCase (extname (basename filePath))) st)"
proof -
  let ?ext = "toLowerCase (extname (basename filePath))"
  obtain i st1 where ti: "take_index cfg filePath st = (i, st1)"
    by (cases "take_index cfg filePath st")
  let ?d = "destPath cfg filePath ?ext i"
  note ba = body_a[OF ti, of plat ?ext] and bb = body_b[OF ti, of plat]
  have "written (trace (optimiseImage_b plat cfg filePath st)) =
          written (trace (optimiseImage plat cfg filePath ?ext st)) \<and>
        counters (optimiseImage_b plat cfg filePath st) =
          counters (optimiseImage plat cfg filePath ?ext st)"
  proof (cases "mkdir plat (dirname ?d) st1")
    case (Inl e)
    then show ?thesis
      by (auto simp: optimiseImage_b_def optimiseImage_def ba bb catch_log_def written_append
          split: sum.splits)
  next
    case (Inr st2)
    note mk = this
    from mkdir_metadata[OF mk] have meta: "sharp_metadata plat (files st2) filePath =
        sharp_metadata plat (files st1) filePath" .
    from mkdir_effect[OF mk] have eff: "trace st2 = trace st1 @ [Mkdir (dirname ?d)]"
      "counters st2 = counters st1" by auto
    show ?thesis
    proof (cases "sharp_metadata plat (files st1) filePath")
      case (Inl e)
      then show ?thesis using mk meta eff
        by (simp add: optimiseImage_b_def optimiseImage_def ba bb catch_log_def written_append)
    next
      case (Inr width)
      note w = this
      let ?pl = "\<lparr>resize_width = resize_for width, encode = encoder_for cfg ?ext\<rparr>"
      show ?thesis
      proof (cases "encoder_ok plat (encoder_for cfg ?ext)")
        case False
        then show ?thesis using mk meta eff w
          by (simp add: optimiseImage_b_def optimiseImage_def ba bb catch_log_def written_append)
      next
        case True
        show ?thesis
        proof (cases "toFile plat filePath ?pl ?d st2")
          case (Inl e)
          then show ?thesis using mk meta eff w True
            by (simp add: optimiseImage_b_def optimiseImage_def ba bb catch_log_def written_append)
        next
          case (Inr st3)
          then show ?thesis using mk meta eff w True
            by (simp add: optimiseImage_b_def optimiseImage_def ba bb catch_log_def)
        qed
      qed
    qed
  qed
  then show ?thesis by (simp add: destinationPath_eq pipeline_b_eq)
qed

section \<open>Config resolution\<close>

text \<open>imageOptimizer.js: a configuration that comes out of the loop has both qualities
  between 1 and 100, the defaults where the option is absent, and the compress-PNG flag
  set after \<open>-P\<close>.\<close>

lemma in_range_iff: "in_range v = (\<not> out_of_range v)"
  by (cases v) (auto simp: in_range_def out_of_range_def isFinite_def js_gt_def)

lemma parseArgs_in_range:
  "parseArgs num argv (fl, pos) = Inr (fl', pos') \<Longrightarrow>
   in_range (jpegQuality fl) \<Longrightarrow> in_range (pngQuality fl) \<Longrightarrow>
   in_range (jpegQuality fl') \<and> in_range (pngQuality fl')"
proof (induction num argv "(fl, pos)" arbitrary: fl pos rule: parseArgs.induct)
  case (1 num)
  then show ?case by simp
next
  case (2 num arg rest fl pos)
  show ?case
  proof (cases "startsWith arg ''-''")
    case False
    with 2 show ?thesis by simp
  next
    case True
    show ?thesis
    proof (cases "switch_arg arg")
      case CaseQuality
      with True 2 show ?thesis by (auto simp: in_range_iff split: if_splits)
    next
      case CasePngQuality
      with True 2 show ?thesis by (auto simp: in_range_iff split: if_splits)
    next
      case CaseCompressPng
      with True 2 show ?thesis by auto
    next
      case CaseRename
      with True 2 show ?thesis by auto
    next
      case CaseForceDelete
      with True 2 show ?thesis by auto
    next
      case CaseHelp
      with True 2 show ?thesis by auto
    next
      case CaseDefault
      with True 2 show ?thesis by auto
    qed
  qed
qed

lemma parseArgs_keeps_compress:
  "parseArgs num argv (fl, pos) = Inr (fl', pos') \<Longrightarrow> compressPNG fl \<Longrightarrow> compressPNG fl'"
proof (induction num argv "(fl, pos)" arbitrary: fl pos rule: parseArgs.induct)
  case (1 num)
  then show ?case by simp
next
  case (2 num arg rest fl pos)
  show ?case
  proof (cases "startsWith arg ''-''")
    case False
    with 2 show ?thesis by simp
  next
    case True
    with 2 show ?thesis by (cases "switch_arg arg") (auto split: if_splits)
  qed
qed

text \<open>In imageOptimizer.js, at the word -P the loop either exits or ends with compress on.\<close>
lemma parseArgs_png_quality_sets_compress:
  assumes "arg = ''-P'' \<or> arg = ''--png-quality''"
    and "parseArgs num (arg # rest) (fl, pos) = Inr (fl', pos')"
  shows "compressPNG fl' \<and> \<not> out_of_range (Number num (next_word rest))"
proof -
  from assms(1) have sw: "startsWith arg ''-''" "switch_arg arg = CasePngQuality"
    by (auto simp: startsWith_def switch_arg_def)
  with assms(2) show ?thesis
    by (auto split: if_splits dest: parseArgs_keeps_compress)
qed

lemma resolveConfig_in_range:
  assumes "resolveConfig num cwd argv = Inr cfg"
  shows "in_range (jpegQuality cfg) \<and> in_range (pngQuality cfg)"
proof -
  from assms obtain fl pos where p: "parseArgs num argv (default_flags, []) = Inr (fl, pos)"
    and c: "jpegQuality cfg = jpegQuality fl" "pngQuality cfg = pngQuality fl"
    by (auto simp: resolveConfig_def flags.defs split: sum.splits)
  from parseArgs_in_range[OF p] c show ?thesis
    by (simp add: default_flags_def in_range_def)
qed

lemma parseArgs_defaults:
  "parseArgs num argv (fl, pos) = Inr (fl', pos') \<Longrightarrow>
   (''-q'' \<notin> set argv \<and> ''--quality'' \<notin> set argv \<longrightarrow> jpegQuality fl' = jpegQuality fl) \<and>
   (''-P'' \<notin> set argv \<and> ''--png-quality'' \<notin> set argv \<longrightarrow> pngQuality fl' = pngQuality fl)"
proof (induction num argv "(fl, pos)" arbitrary: fl pos rule: parseArgs.induct)
  case (1 num)
  then show ?case by simp
next
  case (2 num arg rest fl pos)
  have tl: "\<And>x. x \<notin> set rest \<Longrightarrow> x \<notin> set (tl rest)"
    by (cases rest) auto
  show ?case
  proof (cases "startsWith arg ''-''")
    case False
    with 2 show ?thesis by simp
  next
    case True
    show ?thesis
    proof (cases "switch_arg arg")
      case CaseQuality
      then have "arg = ''-q'' \<or> arg = ''--quality''"
        by (auto simp: switch_arg_def split: if_splits)
      with CaseQuality True 2 tl show ?thesis by (auto split: if_splits)
    next
      case CasePngQuality
      then have "arg = ''-P'' \<or> arg = ''--png-quality''"
        by (auto simp: switch_arg_def split: if_splits)
      with CasePngQuality True 2 tl show ?thesis by (auto split: if_splits)
    next
      case CaseCompressPng
      with True 2 show ?thesis by auto
    next
      case CaseRename
      with True 2 show ?thesis by auto
    next
      case CaseForceDelete
      with True 2 show ?thesis by auto
    next
      case CaseHelp
      with True 2 show ?thesis by auto
    next
      case CaseDefault
      with True 2 show ?thesis by auto
    qed
  qed
qed

lemma resolveConfig_defaults:
  assumes "resolveConfig num cwd argv = Inr cfg"
  shows "(''-q'' \<notin> set argv \<and> ''--quality'' \<notin> set argv \<longrightarrow> jpegQuality cfg = Fin 75) \<and>
         (''-P'' \<notin> set argv \<and> ''--png-quality'' \<notin> set argv \<longrightarrow> pngQuality cfg = Fin 80)"
proof -
  from assms obtain fl pos where p: "parseArgs num argv (default_flags, []) = Inr (fl, pos)"
    and c: "jpegQuality cfg = jpegQuality fl" "pngQuality cfg = pngQuality fl"
    by (auto simp: resolveConfig_def flags.defs split: sum.splits)
  from parseArgs_defaults[OF p] c show ?thesis
    by (simp add: default_flags_def)
qed

text \<open>A quality out of range ends imageOptimizer.js with status 1 at the option.\<close>

lemma parseArgs_out_of_range_exits:
  assumes "arg = ''-q'' \<or> arg = ''--quality'' \<or> arg = ''-P'' \<or> arg = ''--png-quality''"
    and "out_of_range (Number num (next_word rest))"
  shows "\<exists>x. parseArgs num (arg # rest) (fl, pos) = Inl x \<and> exit_status x = 1"
  using assms by (auto simp: startsWith_def switch_arg_def exit_status_def)

lemma ex70: "ex_number ''70'' = Fin 70"
  by (simp add: ex_number_def digit_val_def)

text \<open>
  C6, on the command line \<open>in out -P 70\<close>. Both scripts accept the value 70 as the PNG
  quality. imageOptimizer.js sets the compress-PNG flag with it, as the claim and the help
  text of both scripts say (\<open>implies --compress-png\<close>); part_000 reads the flag from the key
  of \<open>--compress-png\<close> alone and leaves it off, so its PNGs stay lossless.
\<close>

theorem png_quality_alone_differs:
  "(\<exists>cfg. resolveConfig ex_number [''home''] [''in'', ''out'', ''-P'', ''70''] = Inr cfg \<and>
          pngQuality cfg = Fin 70 \<and> compressPNG cfg) \<and>
   (\<exists>cfg. resolveConfig_b ex_number [''home''] [''in'', ''out'', ''-P'', ''70''] = Inr cfg \<and>
          pngQuality cfg = Fin 70 \<and> \<not> compressPNG cfg)"
  by (simp add: resolveConfig_def resolveConfig_b_def startsWith_def switch_arg_def option_of_def
      next_word_def Number_def ex70 out_of_range_def isFinite_def js_gt_def
      parseIntegerInRange_def isInteger_def default_flags_def default_options_def flags.defs)

section \<open>Output preparation\<close>

lemma mkdir_rev_is_dir:
  "mkdir_rev rp fs = Inr fs' \<Longrightarrow> \<exists>names. fs' (rev rp) = Some (Dir names)"
proof (cases rp)
  case Nil
  assume "mkdir_rev rp fs = Inr fs'"
  with Nil show ?thesis by (auto split: option.splits node.splits)
next
  case (Cons n rp')
  assume "mkdir_rev rp fs = Inr fs'"
  with Cons show ?thesis
    by (auto split: option.splits node.splits sum.splits)
qed

lemma mkdir_rev_frame:
  "mkdir_rev rp fs = Inr fs' \<Longrightarrow> \<not> prefix q (rev rp) \<Longrightarrow> fs' q = fs q"
proof (induction rp arbitrary: fs')
  case Nil
  then show ?case by (auto split: option.splits node.splits)
next
  case (Cons n rp)
  from Cons.prems(2) have nq: "q \<noteq> rev rp @ [n]" "q \<noteq> rev rp" "\<not> prefix q (rev rp)"
    by (auto simp: prefix_def)
  show ?case
  proof (cases "fs (rev (n # rp))")
    case (Some x)
    with Cons.prems(1) show ?thesis by (cases x) auto
  next
    case None
    with Cons.prems(1) obtain fs1 names where
      1: "mkdir_rev rp fs = Inr fs1" and 2: "fs1 (rev rp) = Some (Dir names)"
      and 3: "fs' = fs1(rev rp \<mapsto> Dir (names @ [n]), rev (n # rp) \<mapsto> Dir [])"
      by (auto split: sum.splits option.splits node.splits)
    from Cons.IH[OF 1 nq(3)] 3 nq show ?thesis by simp
  qed
qed

lemma mkdir_rev_existing:
  "fs (rev rp) = Some (Dir names) \<Longrightarrow> mkdir_rev rp fs = Inr fs"
  by (cases rp) auto

lemma mkdir_rev_fresh:
  assumes "mkdir_rev rp fs = Inr fs'" "fs (rev rp) = None"
  shows "fs' (rev rp) = Some (Dir [])"
proof (cases rp)
  case Nil
  with assms show ?thesis by auto
next
  case (Cons n rp')
  with assms show ?thesis by (auto split: sum.splits option.splits node.splits)
qed

lemma mkdir_rev_parent_dir:
  assumes "fs (rev (n # rp)) = None" "fs (rev rp) = Some (Dir pn)"
  shows "\<exists>fs'. mkdir_rev (n # rp) fs = Inr fs'"
  using assms mkdir_rev_existing[of fs rp pn] by simp


lemma readdir_Dir:
  "fs p = Some (Dir names) \<Longrightarrow> path_len p \<le> path_max plat \<Longrightarrow>
     readdir plat fs p = Inr (map (\<lambda>n. (n, kind_of (fs (p @ [n])))) (filter valid_seg (remdups names)))"
  by (simp add: readdir_def)

lemma filter_remdups_Nil: "(filter P (remdups xs) = []) = (filter P xs = [])"
  by (simp add: filter_empty_conv)

lemma clearOutput_dir:
  assumes d: "files st (destDir cfg) = Some (Dir names)" and len: "path_len (destDir cfg) \<le> path_max plat"
  shows "clearOutput plat cfg answer st =
    Inr (if will_delete cfg answer names
         then (rm (destDir cfg) st)\<lparr>trace := trace (rm (destDir cfg) st) @ [LogDeleted]\<rparr> else st)"
  using d len
  by (auto simp: clearOutput_def existsSync_def readdir_Dir will_delete_def Let_def
      filter_remdups_Nil)

lemma clearOutput_absent:
  assumes "files st (destDir cfg) = None"
  shows "clearOutput plat cfg answer st = Inr st"
  using assms by (simp add: clearOutput_def existsSync_def)

lemma prepareOutput_len:
  "prepareOutput plat cfg answer st = Inr st' \<Longrightarrow> path_len (destDir cfg) \<le> path_max plat"
  by (auto simp: prepareOutput_def mkdir_def split: sum.splits if_splits)

text \<open>The answers that confirm: \<open>y\<close> or \<open>yes\<close>, each letter in either case, with any white
  space before and after.\<close>

lemma canonicalize_letter:
  "(canonicalize u = 0x59) = (u = 0x59 \<or> u = 0x79)"
  "(canonicalize u = 0x45) = (u = 0x45 \<or> u = 0x65)"
  "(canonicalize u = 0x53) = (u = 0x53 \<or> u = 0x73)"
  by (auto simp: canonicalize_def)

lemma askYesNo_iff:
  "askYesNo answer =
     (\<exists>y. (y = 0x59 \<or> y = 0x79) \<and>
        (trim answer = [y] \<or>
         (\<exists>e s. (e = 0x45 \<or> e = 0x65) \<and> (s = 0x53 \<or> s = 0x73) \<and> trim answer = [y, e, s])))"
  by (auto simp: askYesNo_def test_y_es_def canonicalize_letter)

text \<open>
  C5. Output preparation, for the output directory \<open>d\<close>. Whenever the step returns, \<open>d\<close> is
  a directory afterwards. If \<open>d\<close> was a directory that listed at least one entry and the
  force-delete flag was given or the user answered yes (\<open>askYesNo\<close> of the line typed: \<open>y\<close>
  or \<open>yes\<close> in either case, after \<open>trim\<close>), then afterwards \<open>d\<close> is an empty directory and
  nothing exists below it; if it was empty, or the flag was absent and the user declined,
  the file system is exactly as before. The step does return when the path of \<open>d\<close> is
  within the limit, \<open>d\<close> is absent or a directory, and its parent is a directory.
\<close>

theorem output_preparation:
  fixes cfg :: config
  defines "d \<equiv> destDir cfg"
  shows "(prepareOutput plat cfg answer st = Inr st' \<longrightarrow>
           (\<exists>names'. files st' d = Some (Dir names')) \<and>
           (\<forall>names. files st d = Some (Dir names) \<longrightarrow>
              (if filter valid_seg names \<noteq> [] \<and> (forceDelete cfg \<or> askYesNo answer)
               then files st' d = Some (Dir []) \<and> (\<forall>q. strict_prefix d q \<longrightarrow> files st' q = None)
               else files st' = files st))) \<and>
         (path_len d \<le> path_max plat \<and>
          (files st d = None \<or> (\<exists>names. files st d = Some (Dir names))) \<and>
          (d \<noteq> [] \<longrightarrow> (\<exists>pn. files st (dirname d) = Some (Dir pn))) \<longrightarrow>
            (\<exists>st''. prepareOutput plat cfg answer st = Inr st''))"
proof (intro conjI impI)
  assume ok: "prepareOutput plat cfg answer st = Inr st'"
  then obtain st1 where c: "clearOutput plat cfg answer st = Inr st1"
    and m: "mkdir plat d st1 = Inr st'"
    by (auto simp: prepareOutput_def d_def split: sum.splits)
  from m obtain fs' where mr: "mkdir_rev (rev d) (files st1) = Inr fs'" and fs': "files st' = fs'"
    by (auto simp: mkdir_def split: if_splits sum.splits)
  from mkdir_rev_is_dir[OF mr] fs' show "\<exists>names'. files st' d = Some (Dir names')" by simp
  from prepareOutput_len[OF ok] have len: "path_len d \<le> path_max plat" by (simp add: d_def)
  show "\<forall>names. files st d = Some (Dir names) \<longrightarrow>
              (if filter valid_seg names \<noteq> [] \<and> (forceDelete cfg \<or> askYesNo answer)
               then files st' d = Some (Dir []) \<and> (\<forall>q. strict_prefix d q \<longrightarrow> files st' q = None)
               else files st' = files st)"
  proof (intro allI impI)
    fix names assume dir: "files st d = Some (Dir names)"
    from clearOutput_dir[of st cfg names plat answer] dir len c
    have st1: "st1 = (if will_delete cfg answer names
         then (rm d st)\<lparr>trace := trace (rm d st) @ [LogDeleted]\<rparr> else st)"
      by (simp add: d_def)
    show "if filter valid_seg names \<noteq> [] \<and> (forceDelete cfg \<or> askYesNo answer)
               then files st' d = Some (Dir []) \<and> (\<forall>q. strict_prefix d q \<longrightarrow> files st' q = None)
               else files st' = files st"
    proof (cases "will_delete cfg answer names")
      case False
      with st1 have "st1 = st" by simp
      with mr mkdir_rev_existing[of "files st" "rev d" names] dir fs' False
      show ?thesis by (auto simp: will_delete_def)
    next
      case True
      with st1 have f1: "files st1 = rm_rf d (files st)" by (simp add: rm_def)
      then have none: "files st1 d = None" by (simp add: rm_rf_def)
      from mkdir_rev_fresh[OF mr] none have a: "fs' d = Some (Dir [])" by simp
      have b: "fs' q = None" if "strict_prefix d q" for q
      proof -
        from that have "\<not> prefix q d" by (auto simp: strict_prefix_def prefix_order.antisym)
        with mkdir_rev_frame[OF mr, of q] have "fs' q = files st1 q" by simp
        with f1 that show ?thesis by (simp add: rm_rf_def strict_prefix_def)
      qed
      from a b fs' True show ?thesis by (simp add: will_delete_def)
    qed
  qed
next
  assume "path_len d \<le> path_max plat \<and>
          (files st d = None \<or> (\<exists>names. files st d = Some (Dir names))) \<and>
          (d \<noteq> [] \<longrightarrow> (\<exists>pn. files st (dirname d) = Some (Dir pn)))"
  then have len: "path_len d \<le> path_max plat"
    and self: "files st d = None \<or> (\<exists>names. files st d = Some (Dir names))"
    and par: "d \<noteq> [] \<longrightarrow> (\<exists>pn. files st (dirname d) = Some (Dir pn))" by auto
  text \<open>After the first step the directory is absent or a directory, and its parent is a directory.\<close>
  have "\<exists>st1. clearOutput plat cfg answer st = Inr st1 \<and>
          (files st1 d = None \<or> (\<exists>names. files st1 d = Some (Dir names))) \<and>
          (d \<noteq> [] \<longrightarrow> (\<exists>pn. files st1 (dirname d) = Some (Dir pn)))"
  proof (cases "files st d")
    case None
    with clearOutput_absent[of st cfg plat answer] par show ?thesis by (simp add: d_def)
  next
    case (Some x)
    with self obtain names where dir: "files st d = Some (Dir names)" by auto
    show ?thesis
    proof (cases "will_delete cfg answer names")
      case False
      with clearOutput_dir[of st cfg names plat answer] dir len par show ?thesis
        by (simp add: d_def)
    next
      case True
      have "d \<noteq> [] \<longrightarrow> (\<exists>pn. rm_rf d (files st) (dirname d) = Some (Dir pn))"
      proof
        assume ne: "d \<noteq> []"
        with par obtain pn where pn: "files st (dirname d) = Some (Dir pn)" by auto
        from ne have "\<not> prefix d (butlast d)"
          by (metis prefix_length_le length_butlast diff_less length_greater_0_conv not_less zero_less_one)
        with ne pn show "\<exists>pn. rm_rf d (files st) (dirname d) = Some (Dir pn)"
          by (simp add: rm_rf_def dirname_def)
      qed
      with True clearOutput_dir[of st cfg names plat answer] dir len show ?thesis
        by (simp add: d_def rm_def rm_rf_def)
    qed
  qed
  then obtain st1 where c: "clearOutput plat cfg answer st = Inr st1"
    and self1: "files st1 d = None \<or> (\<exists>names. files st1 d = Some (Dir names))"
    and par1: "d \<noteq> [] \<longrightarrow> (\<exists>pn. files st1 (dirname d) = Some (Dir pn))" by auto
  have "\<exists>fs'. mkdir_rev (rev d) (files st1) = Inr fs'"
  proof (cases "files st1 d")
    case (Some x)
    with self1 obtain names where "files st1 d = Some (Dir names)" by auto
    with mkdir_rev_existing[of "files st1" "rev d" names] show ?thesis by simp
  next
    case None
    show ?thesis
    proof (cases "rev d")
      case Nil
      with None show ?thesis by simp
    next
      case (Cons n rp)
      then have d: "d = rev rp @ [n]" by (metis rev.simps(2) rev_rev_ident)
      with par1 obtain pn where "files st1 (rev rp) = Some (Dir pn)" by (auto simp: dirname_def)
      with mkdir_rev_parent_dir[of "files st1" n rp pn] None d Cons show ?thesis by simp
    qed
  qed
  with c len show "\<exists>st''. prepareOutput plat cfg answer st = Inr st''"
    by (auto simp: prepareOutput_def mkdir_def d_def)
qed


lemma ex_askYesNo: "askYesNo ex_yes"
  by (simp add: askYesNo_def test_y_es_def trim_def is_space_def canonicalize_def ex_yes_def)

text \<open>A no-break space after the \<open>y\<close> is trimmed like any other blank, and a \<open>y\<close> followed by
  anything else is not a yes.\<close>

lemma askYesNo_nbsp: "askYesNo [0x79, 0xA0] \<and> askYesNo [0x2003, 0x59, 0x45, 0x73, 0x0A]"
  by (simp add: askYesNo_def test_y_es_def trim_def is_space_def canonicalize_def)

lemma askYesNo_no: "\<not> askYesNo [] \<and> \<not> askYesNo [0x6E] \<and> \<not> askYesNo [0x79, 0x20, 0x79]"
  by (simp add: askYesNo_def test_y_es_def trim_def is_space_def canonicalize_def)

theorem output_preparation_witness:
  "\<exists>st'. prepareOutput ex_platform ex_config ex_yes (initial_state ex_files_old) = Inr st' \<and>
         files st' [''out''] = Some (Dir []) \<and> files st' [''out'', ''old.jpg''] = None"
proof -
  let ?st = "initial_state ex_files_old"
  have pre: "path_len (destDir ex_config) \<le> path_max ex_platform \<and>
          (files ?st (destDir ex_config) = None \<or>
           (\<exists>names. files ?st (destDir ex_config) = Some (Dir names))) \<and>
          (destDir ex_config \<noteq> [] \<longrightarrow>
           (\<exists>pn. files ?st (dirname (destDir ex_config)) = Some (Dir pn)))"
    by (simp add: ex_defs ex_files_old_def path_len_def dirname_def)
  with output_preparation[of ex_platform ex_config ex_yes ?st]
  obtain st' where ok: "prepareOutput ex_platform ex_config ex_yes ?st = Inr st'" by blast
  have dir: "files ?st (destDir ex_config) = Some (Dir [''old.jpg''])"
    by (simp add: ex_defs ex_files_old_def)
  have del: "filter valid_seg [''old.jpg''] \<noteq> [] \<and> (forceDelete ex_config \<or> askYesNo ex_yes)"
    by (simp add: valid_seg_def ex_askYesNo)
  from output_preparation[of ex_platform ex_config ex_yes ?st st'] ok dir del
  have "files st' (destDir ex_config) = Some (Dir []) \<and>
        (\<forall>q. strict_prefix (destDir ex_config) q \<longrightarrow> files st' q = None)"
    by auto
  then have "files st' [''out''] = Some (Dir []) \<and> files st' [''out'', ''old.jpg''] = None"
    by (simp add: ex_config_def)
  with ok show ?thesis by blast
qed

text \<open>The answer \<open>y\<close> followed by a no-break space confirms as well: the old output is
  deleted.\<close>

lemma nbsp_answer_deletes:
  "case prepareOutput ex_platform ex_config [0x79, 0xA0] (initial_state ex_files_old) of
     Inr st' \<Rightarrow> files st' [''out''] = Some (Dir []) \<and> files st' [''out'', ''old.jpg''] = None \<and>
       trace st' = [Rm [''out''], LogDeleted, Mkdir [''out'']]
   | Inl x \<Rightarrow> False"
  by code_simp

section \<open>The lines of a call of the transcoder\<close>

lemma trace_optimiseImage:
  "trace (optimiseImage plat cfg f ext st) = trace st @ new_events st (optimiseImage plat cfg f ext st)"
proof -
  obtain idx st1 where ti: "take_index cfg f st = (idx, st1)" by (cases "take_index cfg f st")
  from take_index_effect[OF ti] have t1: "trace st1 = trace st" by simp
  show ?thesis
  proof (rule optimiseImage_cases[OF ti, of plat ext], goal_cases)
    case (1 e)
    then show ?thesis by (simp add: new_events_def)
  next
    case (2 e st2)
    then show ?thesis by (simp add: new_events_def)
  next
    case ok: (3 w st2 st3)
    from mkdir_effect[OF ok(2)] toFile_effect[OF ok(3)] t1 ok(4)
    show ?thesis by (simp add: new_events_def log_ok_def)
  qed
qed

lemma one_log_per_call:
  "length (filter is_log (trace (optimiseImage plat cfg f ext st))) =
     Suc (length (filter is_log (trace st)))"
proof -
  obtain idx st1 where ti: "take_index cfg f st = (idx, st1)" by (cases "take_index cfg f st")
  from new_events_optimiseImage[OF ti, of plat ext]
  have "length (filter is_log (new_events st (optimiseImage plat cfg f ext st))) = 1"
    by (auto simp: is_log_def)
  with trace_optimiseImage[of plat cfg f ext st] show ?thesis
    by (metis Suc_eq_plus1 filter_append length_append)
qed

lemma files_only_loop:
  "\<exists>st'. processEntries plat cfg n dir (map (\<lambda>nm. (nm, KFile)) names) st = Done st' \<and>
      length (filter is_log (trace st')) =
        length (filter is_log (trace st)) +
        length (filter (\<lambda>nm. supported (toLowerCase (extname nm))) names)"
proof (induction names arbitrary: st)
  case Nil
  then show ?case by simp
next
  case (Cons nm names)
  let ?st1 = "dispatch_file plat cfg (join [dir, [nm]]) nm st"
  from Cons[of ?st1] obtain st' where
    1: "processEntries plat cfg n dir (map (\<lambda>nm. (nm, KFile)) names) ?st1 = Done st'"
    and 2: "length (filter is_log (trace st')) = length (filter is_log (trace ?st1)) +
        length (filter (\<lambda>nm. supported (toLowerCase (extname nm))) names)" by blast
  have 3: "length (filter is_log (trace ?st1)) = length (filter is_log (trace st)) +
      (if supported (toLowerCase (extname nm)) then 1 else 0)"
    by (simp add: dispatch_file_def Let_def one_log_per_call)
  from 1 2 3 show ?case by simp
qed

section \<open>The walker: what every step keeps\<close>

lemma final_state_simps [simp]:
  "final_state (Done st) = Some st" "final_state (Crash e st) = Some st"
  "final_state (Exit k st) = Some st" "final_state OutOfFuel = None"
  by (simp_all add: final_state_def)

lemma walk_invariant:
  assumes mk: "\<And>p st st1. P st \<Longrightarrow> mkdir plat p st = Inr st1 \<Longrightarrow> P st1"
    and op: "\<And>f ext st. P st \<Longrightarrow> P (optimiseImage plat cfg f ext st)"
  shows "P st \<Longrightarrow> final_state (processDir plat cfg n dir st) = Some st' \<Longrightarrow> P st'"
    and "P st \<Longrightarrow> final_state (processEntries plat cfg n dir es st) = Some st' \<Longrightarrow> P st'"
  using mk op
proof (induction plat cfg n dir st and plat cfg n dir es st arbitrary: st' and st'
    rule: processDir_processEntries.induct)
  case (1 plat cfg dir st)
  then show ?case by simp
next
  case (2 plat cfg n dir st)
  show ?case
  proof (cases "readdir plat (files st) dir")
    case (Inl e)
    with "2.prems" show ?thesis by simp
  next
    case (Inr es)
    with "2.IH"[OF Inr "2.prems"(1) _ "2.prems"(3,4)] "2.prems"(2) show ?thesis by simp
  qed
next
  case (3 plat cfg n dir st)
  then show ?case by simp
next
  case (4 plat cfg n dir name k rest st)
  note IH = "4.IH" and pst = "4.prems"(1) and fin = "4.prems"(2)
    and mk = "4.prems"(3) and op = "4.prems"(4)
  show ?case
  proof (cases k)
    case KFile
    have "P (dispatch_file plat cfg (join [dir, [name]]) name st)"
      unfolding dispatch_file_def Let_def using pst op[OF pst]
      by (cases "supported (toLowerCase (extname name))") simp_all
    from IH(1)[OF KFile this _ mk op] fin KFile show ?thesis by simp
  next
    case KOther
    from IH(4)[OF KOther pst _ mk op] fin KOther show ?thesis by simp
  next
    case KDir
    show ?thesis
    proof (cases "mirror_dir plat cfg (join [dir, [name]]) st")
      case (Inl e)
      with pst fin KDir show ?thesis by simp
    next
      case (Inr st1)
      with mk[OF pst] have p1: "P st1" by (auto simp: mirror_dir_def Let_def)
      note ih2 = IH(2)[OF KDir Inr p1 _ mk op]
      show ?thesis
      proof (cases "processDir plat cfg n (join [dir, [name]]) st1")
        case (Done st2)
        with ih2 have "P st2" by simp
        from IH(3)[OF KDir Inr Done this _ mk op] fin KDir Inr Done show ?thesis by simp
      next
        case (Crash e st2)
        with ih2 fin KDir Inr show ?thesis by simp
      next
        case (Exit k st2)
        with ih2 fin KDir Inr show ?thesis by simp
      next
        case OutOfFuel
        with fin KDir Inr show ?thesis by simp
      qed
    qed
  qed
qed

section \<open>The order of the pipeline\<close>

lemma prepareOutput_trace:
  "prepareOutput plat cfg answer st = Inr st1 \<Longrightarrow>
     trace st1 = trace st @ [Mkdir (destDir cfg)] \<or>
     trace st1 = trace st @ [Rm (destDir cfg), LogDeleted, Mkdir (destDir cfg)]"
  "prepareOutput plat cfg answer st = Inl (e, st1) \<Longrightarrow>
     trace st1 = trace st \<or> trace st1 = trace st @ [Rm (destDir cfg), LogDeleted]"
  by (auto simp: prepareOutput_def clearOutput_def rm_def Let_def
      split: sum.splits if_splits dest!: mkdir_effect)

lemma walk_adds_no_clear:
  assumes "final_state (processDir plat cfg n dir st) = Some st'"
  shows "\<exists>evs. trace st' = trace st @ evs \<and> (\<forall>e\<in>set evs. \<not> is_clear e)"
proof -
  let ?P = "\<lambda>s. \<exists>evs. trace s = trace st @ evs \<and> (\<forall>e\<in>set evs. \<not> is_clear e)"
  have mk: "?P s1" if "?P s" "mkdir plat p s = Inr s1" for p s s1
    using that by (auto dest!: mkdir_effect simp: is_clear_def)
  have op: "?P (optimiseImage plat cfg f ext s)" if "?P s" for f ext s
  proof -
    obtain idx st1 where ti: "take_index cfg f s = (idx, st1)" by (cases "take_index cfg f s")
    from new_events_optimiseImage[OF ti, of plat ext]
    have "\<forall>e\<in>set (new_events s (optimiseImage plat cfg f ext s)). \<not> is_clear e"
      by (auto simp: is_clear_def)
    with that trace_optimiseImage[of plat cfg f ext s] show ?thesis by auto
  qed
  have "?P st" by simp
  from walk_invariant(1)[of ?P plat cfg st n dir st', OF mk op this assms] show ?thesis .
qed

text \<open>
  C8. The program is one pipeline in order. When config resolution ends the process (a
  bad quality, the usage text), nothing has happened: the trace is empty and the file
  system untouched. Otherwise the trace of the run is what output preparation did (at
  most: remove the output directory, report it, create the output directory) followed by
  what the walk did; the walk never clears anything, and if the walk did anything at all
  (every \<open>mkdir\<close> of a subdirectory, every file written and every line printed per file is
  its doing), output preparation had ended with the \<open>mkdir\<close> of the output directory.
\<close>

theorem pipeline_order:
  assumes "final_state (main plat num cwd argv answer fuel fs) = Some st'"
  shows "(\<forall>x. resolveConfig num cwd argv = Inl x \<longrightarrow> trace st' = [] \<and> files st' = fs) \<and>
         (\<forall>cfg. resolveConfig num cwd argv = Inr cfg \<longrightarrow>
            (\<exists>prep walk. trace st' = prep @ walk \<and>
               (prep = [] \<or> prep = [Rm (destDir cfg), LogDeleted] \<or>
                prep = [Mkdir (destDir cfg)] \<or>
                prep = [Rm (destDir cfg), LogDeleted, Mkdir (destDir cfg)]) \<and>
               (walk \<noteq> [] \<longrightarrow> prep \<noteq> [] \<and> last prep = Mkdir (destDir cfg)) \<and>
               (\<forall>e\<in>set walk. \<not> is_clear e)))"
proof (intro conjI allI impI)
  fix x assume "resolveConfig num cwd argv = Inl x"
  with assms show "trace st' = []" "files st' = fs"
    by (auto simp: main_def initial_state_def)
next
  fix cfg assume cfg: "resolveConfig num cwd argv = Inr cfg"
  let ?d = "destDir cfg"
  let ?st0 = "initial_state fs"
  from assms cfg have r: "final_state (run plat cfg answer fuel ?st0) = Some st'"
    by (simp add: main_def)
  have t0: "trace ?st0 = []" by (simp add: initial_state_def)
  show "\<exists>prep walk. trace st' = prep @ walk \<and>
               (prep = [] \<or> prep = [Rm ?d, LogDeleted] \<or> prep = [Mkdir ?d] \<or>
                prep = [Rm ?d, LogDeleted, Mkdir ?d]) \<and>
               (walk \<noteq> [] \<longrightarrow> prep \<noteq> [] \<and> last prep = Mkdir ?d) \<and>
               (\<forall>e\<in>set walk. \<not> is_clear e)"
  proof (cases "existsSync plat (files ?st0) (srcDir cfg)")
    case False
    with r t0 have "trace st' = []" by (auto simp: run_def)
    then show ?thesis by simp
  next
    case True
    show ?thesis
    proof (cases "prepareOutput plat cfg answer ?st0")
      case (Inl x)
      obtain e st1 where x: "x = (e, st1)" by (cases x)
      with Inl True r have "st' = st1" by (simp add: run_def)
      with prepareOutput_trace(2)[of plat cfg answer ?st0 e st1] Inl x t0
      have "trace st' = [] \<or> trace st' = [Rm ?d, LogDeleted]" by simp
      then show ?thesis by (intro exI[of _ "trace st'"] exI[of _ "[]"]) auto
    next
      case (Inr st1)
      from prepareOutput_trace(1)[OF Inr] t0
      have p: "trace st1 = [Mkdir ?d] \<or> trace st1 = [Rm ?d, LogDeleted, Mkdir ?d]" by simp
      from r True Inr obtain st2 where
        w: "final_state (processDir plat cfg fuel (srcDir cfg) st1) = Some st2"
        and fin: "trace st' = trace st2 \<or> trace st' = trace st2 @ [LogDone]"
        by (cases "processDir plat cfg fuel (srcDir cfg) st1") (auto simp: run_def)
      from walk_adds_no_clear[OF w] obtain evs where
        evs: "trace st2 = trace st1 @ evs" "\<forall>e\<in>set evs. \<not> is_clear e" by blast
      from fin evs obtain walk where "trace st' = trace st1 @ walk" "\<forall>e\<in>set walk. \<not> is_clear e"
        by (auto simp: is_clear_def)
      with p show ?thesis by (intro exI[of _ "trace st1"] exI[of _ walk]) auto
    qed
  qed
qed

lemma ex_resolve: "resolveConfig ex_number [] [''in'', ''out''] = Inr ex_config"
  by code_simp

lemma ex_main_done:
  "case main ex_platform ex_number [] [''in'', ''out''] ex_yes 3 ex_files_old of
     Done st \<Rightarrow> True | _ \<Rightarrow> False"
  by code_simp

theorem pipeline_order_witness:
  "\<exists>st'. final_state (main ex_platform ex_number [] [''in'', ''out''] ex_yes 3 ex_files_old) = Some st' \<and>
     (\<exists>prep walk. trace st' = prep @ walk \<and>
        (prep = [] \<or> prep = [Rm [''out''], LogDeleted] \<or> prep = [Mkdir [''out'']] \<or>
         prep = [Rm [''out''], LogDeleted, Mkdir [''out'']]) \<and>
        list_all (\<lambda>e. \<not> is_clear e) walk)"
proof -
  from ex_main_done obtain st' where
    d: "main ex_platform ex_number [] [''in'', ''out''] ex_yes 3 ex_files_old = Done st'"
    by (cases "main ex_platform ex_number [] [''in'', ''out''] ex_yes 3 ex_files_old") auto
  then have f: "final_state (main ex_platform ex_number [] [''in'', ''out''] ex_yes 3 ex_files_old)
      = Some st'" by simp
  from pipeline_order[OF f] ex_resolve
  have "\<exists>prep walk. trace st' = prep @ walk \<and>
        (prep = [] \<or> prep = [Rm [''out''], LogDeleted] \<or> prep = [Mkdir [''out'']] \<or>
         prep = [Rm [''out''], LogDeleted, Mkdir [''out'']]) \<and>
        list_all (\<lambda>e. \<not> is_clear e) walk"
    by (simp add: ex_config_def list_all_iff) blast
  with f show ?thesis by blast
qed


section \<open>Renaming\<close>

lemma count_top_append: "count_top cfg t (xs @ ys) = count_top cfg t xs + count_top cfg t ys"
  by (simp add: count_top_def)

lemma split_append:
  "(xs @ ys = pre @ a # post) =
     ((\<exists>post'. xs = pre @ a # post' \<and> post = post' @ ys) \<or>
      (\<exists>pre'. ys = pre' @ a # post \<and> pre = xs @ pre'))"
  by (auto simp: append_eq_append_conv2 append_eq_Cons_conv Cons_eq_append_conv)

lemma numbered_append_plain:
  assumes "numbered cfg tr" "\<forall>src dst pl. ToFile src dst pl \<notin> set evs"
  shows "numbered cfg (tr @ evs)"
  unfolding numbered_def
proof (intro allI impI)
  fix before src dst pl after
  assume "tr @ evs = before @ ToFile src dst pl # after"
  then consider post' where "tr = before @ ToFile src dst pl # post'"
    | pre' where "evs = pre' @ ToFile src dst pl # after"
    by (auto simp: split_append)
  then show "basename dst = expected_base cfg src before @ ''.png'' \<or>
         basename dst = expected_base cfg src before @ ''.jpg''"
  proof cases
    case 1
    with assms(1) show ?thesis by (auto simp: numbered_def)
  next
    case 2
    with assms(2) show ?thesis by auto
  qed
qed

lemma counters_optimiseImage:
  assumes ti: "take_index cfg f st = (idx, st1)"
  shows "counters (optimiseImage plat cfg f ext st) = counters st1"
proof (rule optimiseImage_cases[OF ti, of plat ext], goal_cases)
  case (1 e)
  then show ?case by simp
next
  case (2 e st2)
  with mkdir_effect[OF 2(1)] show ?case by simp
next
  case (3 w st2 st3)
  with mkdir_effect[OF 3(2)] toFile_effect[OF 3(3)] show ?case by (simp add: log_ok_def)
qed

lemma count_new_events:
  assumes ti: "take_index cfg f st = (idx, st1)"
  shows "count_top cfg t (new_events st (optimiseImage plat cfg f ext st)) =
           (if t = top_folder cfg f then 1 else 0)"
  using new_events_optimiseImage[OF ti, of plat ext]
  by (auto simp: count_top_def processed_top_def)

lemma naming_kept_by_optimiseImage:
  assumes c: "renameFiles cfg \<longrightarrow> counters_ok cfg st" and n: "numbered cfg (trace st)"
  shows "(renameFiles cfg \<longrightarrow> counters_ok cfg (optimiseImage plat cfg f ext st)) \<and>
         numbered cfg (trace (optimiseImage plat cfg f ext st))"
proof -
  let ?st' = "optimiseImage plat cfg f ext st"
  let ?top = "top_folder cfg f"
  obtain idx st1 where ti: "take_index cfg f st = (idx, st1)" by (cases "take_index cfg f st")
  note tr = trace_optimiseImage[of plat cfg f ext st]
  note cnt = count_new_events[OF ti, of _ plat ext]
  have idx: "idx = (if renameFiles cfg then Some (Suc (count_top cfg ?top (trace st))) else None)"
    and c1: "renameFiles cfg \<longrightarrow>
      counters st1 = (counters st)(?top \<mapsto> Suc (Suc (count_top cfg ?top (trace st))))"
  proof -
    have "idx = (if renameFiles cfg then Some (Suc (count_top cfg ?top (trace st))) else None) \<and>
      (renameFiles cfg \<longrightarrow>
        counters st1 = (counters st)(?top \<mapsto> Suc (Suc (count_top cfg ?top (trace st)))))"
    proof (cases "renameFiles cfg")
      case False
      with ti show ?thesis by (simp add: take_index_def)
    next
      case True
      with c have "counters st ?top = (if count_top cfg ?top (trace st) = 0 then None
         else Some (Suc (count_top cfg ?top (trace st))))"
        unfolding counters_ok_def by blast
      then have "(case counters st ?top of None \<Rightarrow> 1 | Some k \<Rightarrow> if k = 0 then 1 else k) =
          Suc (count_top cfg ?top (trace st))" by simp
      with ti True show ?thesis
        by (auto simp: take_index_def nextIndex_def Let_def)
    qed
    then show "idx = (if renameFiles cfg then Some (Suc (count_top cfg ?top (trace st))) else None)"
      and "renameFiles cfg \<longrightarrow>
        counters st1 = (counters st)(?top \<mapsto> Suc (Suc (count_top cfg ?top (trace st))))"
      by blast+
  qed
  have A: "renameFiles cfg \<longrightarrow> counters_ok cfg ?st'"
  proof
    assume r: "renameFiles cfg"
    show "counters_ok cfg ?st'"
      unfolding counters_ok_def
    proof
      fix t
      have "count_top cfg t (trace ?st') = count_top cfg t (trace st) + (if t = ?top then 1 else 0)"
        by (subst tr) (simp add: count_top_append cnt)
      moreover from c r have "counters st t = (if count_top cfg t (trace st) = 0 then None
         else Some (Suc (count_top cfg t (trace st))))"
        unfolding counters_ok_def by blast
      ultimately show "counters ?st' t = (if count_top cfg t (trace ?st') = 0 then None
         else Some (Suc (count_top cfg t (trace ?st'))))"
        using c1 r counters_optimiseImage[OF ti, of plat ext] by simp
    qed
  qed
  have B: "numbered cfg (trace ?st')"
  proof -
    from new_events_optimiseImage[OF ti, of plat ext]
    consider "\<forall>src dst pl. ToFile src dst pl \<notin> set (new_events st ?st')"
      | w where "new_events st ?st' =
           [Mkdir (dirname (destPath cfg f ext idx)),
            ToFile f (destPath cfg f ext idx)
              \<lparr>resize_width = resize_for w, encode = encoder_for cfg ext\<rparr>,
            LogOk (relative (srcDir cfg) f) (relative (destDir cfg) (destPath cfg f ext idx))
              (status_for cfg ext) (renameFiles cfg)]"
      by auto
    then show ?thesis
    proof cases
      case 1
      then have "numbered cfg (trace st @ new_events st ?st')"
        by (intro numbered_append_plain[OF n])
      with tr show ?thesis by simp
    next
      case 2
      let ?d = "destPath cfg f ext idx"
      have base: "basename ?d = expected_base cfg f (trace st @ [Mkdir (dirname ?d)]) @ destExt ext"
        using idx by (simp add: basename_destPath newBase_def expected_base_def count_top_append
            count_top_def processed_top_def)
      show ?thesis
        unfolding numbered_def
      proof (intro allI impI)
        fix before src dst pl after
        assume "trace ?st' = before @ ToFile src dst pl # after"
        with tr 2 have "trace st @ [Mkdir (dirname ?d), ToFile f ?d
              \<lparr>resize_width = resize_for w, encode = encoder_for cfg ext\<rparr>,
            LogOk (relative (srcDir cfg) f) (relative (destDir cfg) ?d)
              (status_for cfg ext) (renameFiles cfg)] = before @ ToFile src dst pl # after"
          by simp
        then consider post' where "trace st = before @ ToFile src dst pl # post'"
          | "before = trace st @ [Mkdir (dirname ?d)]" "src = f" "dst = ?d"
          by (auto simp: split_append Cons_eq_append_conv)
        then show "basename dst = expected_base cfg src before @ ''.png'' \<or>
           basename dst = expected_base cfg src before @ ''.jpg''"
        proof cases
          case 1
          with n show ?thesis by (auto simp: numbered_def)
        next
          case 2
          with base show ?thesis by (auto simp: destExt_def)
        qed
      qed
    qed
  qed
  from A B show ?thesis ..
qed

lemma naming_kept_by_mkdir:
  assumes "(renameFiles cfg \<longrightarrow> counters_ok cfg st) \<and> numbered cfg (trace st)"
    and "mkdir plat p st = Inr st1"
  shows "(renameFiles cfg \<longrightarrow> counters_ok cfg st1) \<and> numbered cfg (trace st1)"
proof -
  from mkdir_effect[OF assms(2)] have e: "trace st1 = trace st @ [Mkdir p]" "counters st1 = counters st"
    by auto
  have "numbered cfg (trace st @ [Mkdir p])"
    using assms(1) by (intro numbered_append_plain) auto
  with e assms(1) show ?thesis
    by (auto simp: counters_ok_def count_top_append count_top_def processed_top_def)
qed

lemma naming_kept_plain:
  assumes "(renameFiles cfg \<longrightarrow> counters_ok cfg st) \<and> numbered cfg (trace st)"
    and "counters st1 = counters st" and "trace st1 = trace st @ evs"
    and "\<forall>e\<in>set evs. processed_top cfg e = None"
  shows "(renameFiles cfg \<longrightarrow> counters_ok cfg st1) \<and> numbered cfg (trace st1)"
proof -
  from assms(4) have "\<forall>src dst pl. ToFile src dst pl \<notin> set evs"
    by (auto simp: processed_top_def)
  with assms(1) have "numbered cfg (trace st @ evs)"
    by (intro numbered_append_plain) auto
  moreover from assms(4) have "count_top cfg t evs = 0" for t
    by (auto simp: count_top_def)
  ultimately show ?thesis using assms(1-3)
    by (auto simp: counters_ok_def count_top_append)
qed

lemma prepareOutput_counters:
  "prepareOutput plat cfg answer st = Inr st1 \<Longrightarrow> counters st1 = counters st"
  "prepareOutput plat cfg answer st = Inl (e, st1) \<Longrightarrow> counters st1 = counters st"
  by (auto simp: prepareOutput_def clearOutput_def rm_def Let_def
      split: sum.splits if_splits dest!: mkdir_effect)

text \<open>
  C7, amended. In every run, each file written has the base name the flag asks for. With
  the rename flag it is \<open><top>-<n>\<close>, where \<open><top>\<close> is the top-folder name of the source
  (the first segment of its directory relative to the input directory, or the name of the
  input directory for a file directly in it) and \<open>n\<close> is one more than the number of files
  processed before it, written or failed, with that same top-folder name. Without the
  flag it is the base name of the source. The extension is \<open>.png\<close> or \<open>.jpg\<close>.
\<close>

theorem rename_numbering:
  assumes run: "final_state (run plat cfg answer fuel (initial_state fs)) = Some st'"
    and ev: "trace st' = before @ ToFile src dst pl # after"
  shows "(renameFiles cfg \<longrightarrow>
            (basename dst = top_folder cfg src @ ''-'' @
                string_of_nat (Suc (count_top cfg (top_folder cfg src) before)) @ ''.png'' \<or>
             basename dst = top_folder cfg src @ ''-'' @
                string_of_nat (Suc (count_top cfg (top_folder cfg src) before)) @ ''.jpg'')) \<and>
         (\<not> renameFiles cfg \<longrightarrow>
            (basename dst = baseName src @ ''.png'' \<or> basename dst = baseName src @ ''.jpg''))"
proof -
  let ?P = "\<lambda>s. (renameFiles cfg \<longrightarrow> counters_ok cfg s) \<and> numbered cfg (trace s)"
  let ?st0 = "initial_state fs :: 'a state"
  have p0: "?P ?st0"
    by (simp add: initial_state_def counters_ok_def numbered_def count_top_def)
  have "?P st'"
  proof (cases "existsSync plat (files ?st0) (srcDir cfg)")
    case False
    with run p0 show ?thesis by (auto simp: run_def)
  next
    case True
    show ?thesis
    proof (cases "prepareOutput plat cfg answer ?st0")
      case (Inl x)
      obtain e st1 where x: "x = (e, st1)" by (cases x)
      with Inl True run have s: "st' = st1" by (simp add: run_def)
      from Inl x prepareOutput_trace(2)[of plat cfg answer ?st0 e st1]
      obtain evs where "trace st1 = trace ?st0 @ evs" "\<forall>e\<in>set evs. processed_top cfg e = None"
        by (auto simp: processed_top_def)
      with naming_kept_plain[OF p0 prepareOutput_counters(2)] Inl x s show ?thesis by blast
    next
      case (Inr st1)
      from prepareOutput_trace(1)[OF Inr]
      obtain evs where "trace st1 = trace ?st0 @ evs" "\<forall>e\<in>set evs. processed_top cfg e = None"
        by (auto simp: processed_top_def)
      with naming_kept_plain[OF p0 prepareOutput_counters(1)[OF Inr]] have p1: "?P st1" by blast
      from run True Inr obtain st2 where
        w: "final_state (processDir plat cfg fuel (srcDir cfg) st1) = Some st2"
        and fin: "st' = st2 \<or> st' = st2\<lparr>trace := trace st2 @ [LogDone]\<rparr>"
        by (cases "processDir plat cfg fuel (srcDir cfg) st1") (auto simp: run_def)
      have "?P st2"
        by (rule walk_invariant(1)[of ?P plat cfg st1 fuel "srcDir cfg" st2,
              OF naming_kept_by_mkdir naming_kept_by_optimiseImage p1 w]) auto
      from fin show ?thesis
      proof
        assume "st' = st2" with \<open>?P st2\<close> show ?thesis by simp
      next
        assume "st' = st2\<lparr>trace := trace st2 @ [LogDone]\<rparr>"
        with naming_kept_plain[OF \<open>?P st2\<close>, of st' "[LogDone]"] show ?thesis
          by (simp add: processed_top_def)
      qed
    qed
  qed
  then have "numbered cfg (trace st')" ..
  with ev have "basename dst = expected_base cfg src before @ ''.png'' \<or>
         basename dst = expected_base cfg src before @ ''.jpg''"
    unfolding numbered_def by blast
  then show ?thesis by (auto simp: expected_base_def)
qed

lemma cx_run:
  "case run ex_platform cx_config [] 3 (initial_state cx_files) of
     Done st \<Rightarrow>
       trace st =
         cx_before @ ToFile [''photos'', ''a.jpg''] [''out'', ''photos-1.jpg''] cx_pipeline #
         cx_after
   | _ \<Rightarrow> False"
  by code_simp

theorem rename_numbering_witness:
  "\<exists>st'. final_state (run ex_platform cx_config [] 3 (initial_state cx_files)) = Some st' \<and>
     trace st' =
       cx_before @ ToFile [''photos'', ''a.jpg''] [''out'', ''photos-1.jpg''] cx_pipeline #
       cx_after \<and>
     renameFiles cx_config \<and>
     (basename [''out'', ''photos-1.jpg''] =
        top_folder cx_config [''photos'', ''a.jpg''] @ ''-'' @
          string_of_nat
            (Suc (count_top cx_config (top_folder cx_config [''photos'', ''a.jpg'']) cx_before)) @
          ''.png'' \<or>
      basename [''out'', ''photos-1.jpg''] =
        top_folder cx_config [''photos'', ''a.jpg''] @ ''-'' @
          string_of_nat
            (Suc (count_top cx_config (top_folder cx_config [''photos'', ''a.jpg'']) cx_before)) @
          ''.jpg'')"
proof -
  from cx_run obtain st' where
    d: "run ex_platform cx_config [] 3 (initial_state cx_files) = Done st'"
    and t: "trace st' =
       cx_before @ ToFile [''photos'', ''a.jpg''] [''out'', ''photos-1.jpg''] cx_pipeline #
       cx_after"
    by (cases "run ex_platform cx_config [] 3 (initial_state cx_files)") simp_all
  from d have f: "final_state (run ex_platform cx_config [] 3 (initial_state cx_files)) = Some st'"
    by simp
  have r: "renameFiles cx_config" by (simp add: cx_config_def)
  note concl = rename_numbering[OF f t, THEN conjunct1, rule_format, OF r]
  show ?thesis
    by (intro exI[of _ st'] conjI) (rule f t r concl)+
qed

text \<open>
  C7 as stated fails where a top-level folder has the name of the input directory. In
  \<open>/photos\<close> with the image \<open>a.jpg\<close> and the folder \<open>photos\<close> holding \<open>b.jpg\<close>, the only file of
  the folder \<open>/photos/photos\<close> is written as \<open>photos-2.jpg\<close>: its number does not start at
  1, because the file directly in \<open>/photos\<close> took \<open>photos-1\<close> from the same counter.
\<close>

theorem rename_shared_counter_counterexample:
  "case run ex_platform cx_config [] 3 (initial_state cx_files) of
     Done st \<Rightarrow>
       map (\<lambda>(src, dst, pl). (src, dst)) (written (trace st)) =
         [([''photos'', ''a.jpg''], [''out'', ''photos-1.jpg'']),
          ([''photos'', ''photos'', ''b.jpg''], [''out'', ''photos'', ''photos-2.jpg''])]
   | _ \<Rightarrow> False"
  by code_simp

section \<open>The walker on the input tree\<close>





lemma kind_of_KFile: "(kind_of x = KFile) = (\<exists>c. x = Some (File c))"
  by (auto simp: kind_of_def split: option.splits node.splits)

lemma in_tree_below:
  "in_tree F d q \<Longrightarrow> \<exists>r. q = d @ r \<and> r \<noteq> [] \<and> (\<forall>s\<in>set r. valid_seg s)"
  by (induction rule: in_tree.induct) auto












lemma prefix_dirname: "prefix (dirname p) p"
  by (cases p rule: rev_cases) (simp_all add: dirname_def)







subsection \<open>Directories that are apart\<close>












subsection \<open>The walk\<close>















subsection \<open>What ends a walk\<close>





subsection \<open>What the walk dispatches\<close>



text \<open>The outcome of a walk that does not run out of fuel is the same with more fuel.\<close>

lemma fuel_mono:
  shows "processDir plat cfg n dir st = res \<Longrightarrow> res \<noteq> OutOfFuel \<Longrightarrow>
           processDir plat cfg (n + m) dir st = res"
    and "processEntries plat cfg n dir es st = res \<Longrightarrow> res \<noteq> OutOfFuel \<Longrightarrow>
           processEntries plat cfg (n + m) dir es st = res"
proof (induction plat cfg n dir st and plat cfg n dir es st arbitrary: res and res
    rule: processDir_processEntries.induct)
  case (1 plat cfg dir st)
  then show ?case by simp
next
  case (2 plat cfg n dir st)
  show ?case
  proof (cases "readdir plat (files st) dir")
    case (Inl e)
    with "2.prems" show ?thesis by simp
  next
    case (Inr es)
    with "2.prems" have "processEntries plat cfg n dir es st = res" by simp
    from "2.IH"[OF Inr this "2.prems"(2)] Inr show ?thesis by simp
  qed
next
  case (3 plat cfg n dir st)
  then show ?case by simp
next
  case (4 plat cfg n dir name k rest st)
  note IH = "4.IH" and eq = "4.prems"(1) and ne = "4.prems"(2)
  show ?case
  proof (cases k)
    case KFile
    with eq have "processEntries plat cfg n dir rest
        (dispatch_file plat cfg (join [dir, [name]]) name st) = res" by simp
    from IH(1)[OF KFile this ne] KFile show ?thesis by simp
  next
    case KOther
    with eq have "processEntries plat cfg n dir rest st = res" by simp
    from IH(4)[OF KOther this ne] KOther show ?thesis by simp
  next
    case KDir
    show ?thesis
    proof (cases "mirror_dir plat cfg (join [dir, [name]]) st")
      case (Inl e)
      with KDir eq show ?thesis by simp
    next
      case (Inr st1)
      show ?thesis
      proof (cases "processDir plat cfg n (join [dir, [name]]) st1")
        case (Done st2)
        from IH(2)[OF KDir Inr Done] have a: "processDir plat cfg (n + m) (join [dir, [name]]) st1
            = Done st2" by simp
        from Done KDir Inr eq have "processEntries plat cfg n dir rest st2 = res" by simp
        from IH(3)[OF KDir Inr Done this ne] a KDir Inr show ?thesis by simp
      next
        case (Crash e st2)
        from IH(2)[OF KDir Inr Crash] have "processDir plat cfg (n + m) (join [dir, [name]]) st1
            = Crash e st2" by simp
        moreover from Crash KDir Inr eq have "res = Crash e st2" by simp
        ultimately show ?thesis using KDir Inr by simp
      next
        case (Exit c st2)
        from IH(2)[OF KDir Inr Exit] have "processDir plat cfg (n + m) (join [dir, [name]]) st1
            = Exit c st2" by simp
        moreover from Exit KDir Inr eq have "res = Exit c st2" by simp
        ultimately show ?thesis using KDir Inr by simp
      next
        case OutOfFuel
        with KDir Inr eq ne show ?thesis by simp
      qed
    qed
  qed
qed






text \<open>No amount of fuel lets that walk return normally.\<close>

lemma ov_crash:
  "case processDir ex_platform ov_config 42 [''in''] (initial_state ov_files) of
     Crash e st \<Rightarrow> True | _ \<Rightarrow> False"
  by code_simp

lemma overlap_never_done:
  "processDir ex_platform ov_config fuel [''in''] (initial_state ov_files) \<noteq> Done st'"
proof
  assume dn: "processDir ex_platform ov_config fuel [''in''] (initial_state ov_files) = Done st'"
  from fuel_mono(1)[OF dn, of 42]
  have a: "processDir ex_platform ov_config (fuel + 42) [''in''] (initial_state ov_files) = Done st'"
    by simp
  from ov_crash obtain e st where
    c: "processDir ex_platform ov_config 42 [''in''] (initial_state ov_files) = Crash e st"
    by (cases "processDir ex_platform ov_config 42 [''in''] (initial_state ov_files)") simp_all
  from fuel_mono(1)[OF c, of fuel]
  have "processDir ex_platform ov_config (42 + fuel) [''in''] (initial_state ov_files) = Crash e st"
    by simp
  with a show False by (simp add: add.commute)
qed

section \<open>Failures and the walk\<close>

text \<open>A failure inside \<open>optimiseImage\<close> of part_000 is contained in the same way: the
  function returns with the line of the failure added, the trace gained at most a \<open>mkdir\<close>
  and every regular file is as before.\<close>

lemma part_000_failure:
  assumes fail: "optimiseImage_body_b plat cfg f st = Inl (e, s)"
  shows "optimiseImage_b plat cfg f st = s\<lparr>trace := trace s @ [LogFail f e]\<rparr>"
    and "trace s = trace st \<or> (\<exists>d. trace s = trace st @ [Mkdir d])"
    and "(files s p = Some (File c)) = (files st p = Some (File c))"
proof -
  from fail show "optimiseImage_b plat cfg f st = s\<lparr>trace := trace s @ [LogFail f e]\<rparr>"
    by (simp add: optimiseImage_b_def catch_log_def)
  obtain idx st1 where ti: "take_index cfg f st = (idx, st1)" by (cases "take_index cfg f st")
  from take_index_effect[OF ti] have t1: "trace st1 = trace st" "files st1 = files st" by auto
  let ?d = "dirname (destPath cfg f (toLowerCase (extname (basename f))) idx)"
  have c: "s = st1 \<or> mkdir plat ?d st1 = Inr s"
    using fail body_b[OF ti, of plat]
    by (auto split: sum.splits if_splits)
  then show "trace s = trace st \<or> (\<exists>d. trace s = trace st @ [Mkdir d])"
    using t1 by (auto dest: mkdir_effect)
  from c t1 mkdir_keeps_files[of plat ?d st1 s]
  show "(files s p = Some (File c)) = (files st p = Some (File c))" by auto
qed







end
